theory Spec2Isabelle
  imports Complex_Main
begin

text \<open>
  A shallow embedding of the mechanism manager core of the virtual-fixtures
  packages: the activation automaton and the construction of the interface
  (\<^verbatim>\<open>mechanism_manager_interface.cpp\<close>), the tick of the manager
  (\<^verbatim>\<open>mechanism_manager.cpp\<close>) and the container and locking helpers of
  \<^verbatim>\<open>toolbox/utilities.h\<close>. Members keep their names without the trailing underscore.
  Definitions come first, the theorems about them after.
\<close>

section \<open>Errors\<close>

text \<open>
  The ways in which the C++ sources stop: a failed \<^verbatim>\<open>assert\<close> (of the program or of
  Eigen; assertions are taken as enabled), an exception of the YAML parser, the
  \<^verbatim>\<open>std::runtime_error\<close> thrown by the interface constructor, and a read of a
  \<^verbatim>\<open>std::vector\<close> beyond its size.
\<close>

datatype error = AssertionFailed | YamlException | RuntimeError | OutOfRange

section \<open>The activation automaton (mechanism\_manager\_interface.cpp)\<close>

datatype state_t = MANUAL | PREAUTO | AUTO

record VirtualMechanismAutom =
  phase_dot_preauto_th :: real
  phase_dot_th :: real
  state :: state_t
  loopCnt :: int

text \<open>The constructor: two assertions, then the fields are set.\<close>

definition VirtualMechanismAutom_ctor :: "real \<Rightarrow> real \<Rightarrow> error + VirtualMechanismAutom" where
  "VirtualMechanismAutom_ctor preauto_th th =
     (if \<not> th > 0 then Inl AssertionFailed
      else if \<not> preauto_th > th then Inl AssertionFailed
      else Inr \<lparr>phase_dot_preauto_th = preauto_th, phase_dot_th = th,
                state = MANUAL, loopCnt = 0\<rparr>)"

text \<open>
  \<^verbatim>\<open>Step\<close>, with the source's constant condition \<^verbatim>\<open>if(true)\<close> kept: the three-state
  switch is the branch taken, the two-state version is the dead \<^verbatim>\<open>else\<close>.
\<close>

definition Step :: "VirtualMechanismAutom \<Rightarrow> real \<Rightarrow> real \<Rightarrow> bool \<Rightarrow> VirtualMechanismAutom" where
  "Step a phase_dot phase_dot_ref collision_detected =
     (if True then
        (case state a of
           MANUAL \<Rightarrow>
             if phase_dot \<ge> phase_dot_preauto_th a then a\<lparr>state := PREAUTO\<rparr> else a
         | PREAUTO \<Rightarrow>
             if phase_dot \<le> phase_dot_ref + phase_dot_th a then a\<lparr>state := AUTO\<rparr> else a
         | AUTO \<Rightarrow>
             if collision_detected then a\<lparr>state := MANUAL\<rparr> else a)
      else
        (if phase_dot \<le> phase_dot_ref + phase_dot_th a
            \<and> phase_dot \<ge> phase_dot_ref - phase_dot_th a
         then a\<lparr>state := AUTO\<rparr>
         else a\<lparr>state := MANUAL\<rparr>))"

text \<open>
  \<^verbatim>\<open>GetState\<close> returns the activation flag and counts the call (the periodic print
  of the state name is not modelled).
\<close>

definition GetState :: "VirtualMechanismAutom \<Rightarrow> bool \<times> VirtualMechanismAutom" where
  "GetState a =
     (let activate_vm = (case state a of MANUAL \<Rightarrow> False | PREAUTO \<Rightarrow> False | AUTO \<Rightarrow> True)
      in (activate_vm, a\<lparr>loopCnt := loopCnt a + 1\<rparr>))"

text \<open>
  A run of the automaton: one \<^verbatim>\<open>Step\<close> per tick on the inputs
  \<open>(phase_dot, phase_dot_ref, collision_detected)\<close>; the result lists the automaton
  before the first step and after each step.
\<close>

fun StepTrace :: "VirtualMechanismAutom \<Rightarrow> (real \<times> real \<times> bool) list \<Rightarrow> VirtualMechanismAutom list" where
  "StepTrace a [] = [a]"
| "StepTrace a ((phase_dot, phase_dot_ref, collision_detected) # ins) =
     a # StepTrace (Step a phase_dot phase_dot_ref collision_detected) ins"

section \<open>Eigen containers and shared data (toolbox/utilities.h)\<close>

text \<open>
  An \<^verbatim>\<open>Eigen::VectorXd\<close> is the list of its coefficients. The helpers below only copy
  coefficients, they do no arithmetic on them.
\<close>

type_synonym VectorXd = "real list"

text \<open>
  \<^verbatim>\<open>conservativeResize\<close> keeps the leading coefficients; the coefficients it adds are
  uninitialised in Eigen and are written as 0 here (both callers overwrite them
  at once).
\<close>

definition conservativeResize :: "nat \<Rightarrow> VectorXd \<Rightarrow> VectorXd" where
  "conservativeResize new_size vect = take new_size vect @ replicate (new_size - length vect) 0"

text \<open>
  \<^verbatim>\<open>vect.segment(idx,n) = vect.tail(n)\<close>: source and destination overlap in the same
  vector and Eigen makes no temporary for it, so the assignment is the coefficient
  loop \<^verbatim>\<open>vect(idx+k) = vect(size-n+k)\<close> for \<open>k = 0, ..., n-1\<close>, each read seeing the
  writes before it.
\<close>

fun assign_coeffs :: "nat \<Rightarrow> nat \<Rightarrow> nat \<Rightarrow> VectorXd \<Rightarrow> VectorXd" where
  "assign_coeffs dst src 0 vect = vect"
| "assign_coeffs dst src (Suc n) vect =
     assign_coeffs (Suc dst) (Suc src) n (vect[dst := vect ! src])"

text \<open>
  Eigen asserts that a block lies inside its vector: \<^verbatim>\<open>segment(start,n)\<close> needs
  \<open>0 \<le> start\<close>, \<open>0 \<le> n\<close> and \<open>start + n \<le> size\<close>; \<^verbatim>\<open>tail(n)\<close> needs \<open>0 \<le> n \<le> size\<close>;
  a resize needs a size that is not negative.
\<close>

definition segment_ok :: "int \<Rightarrow> int \<Rightarrow> nat \<Rightarrow> bool" where
  "segment_ok start n sz \<longleftrightarrow> 0 \<le> start \<and> 0 \<le> n \<and> start + n \<le> int sz"

definition tail_ok :: "int \<Rightarrow> nat \<Rightarrow> bool" where
  "tail_ok n sz \<longleftrightarrow> 0 \<le> n \<and> n \<le> int sz"

definition Delete :: "int \<Rightarrow> VectorXd \<Rightarrow> error + VectorXd" where
  "Delete idx vect =
     (let n = int (length vect) - idx - 1 in
      if \<not> segment_ok idx n (length vect) \<or> \<not> tail_ok n (length vect) then Inl AssertionFailed
      else
        let vect1 = assign_coeffs (nat idx) (length vect - nat n) (nat n) vect in
        if int (length vect1) - 1 < 0 then Inl AssertionFailed
        else Inr (conservativeResize (length vect1 - 1) vect1))"

definition PushBack :: "real \<Rightarrow> VectorXd \<Rightarrow> VectorXd" where
  "PushBack val vect =
     (let n = length vect;
          vect1 = conservativeResize (n + 1) vect
      in vect1[n := val])"

text \<open>
  An \<^verbatim>\<open>Eigen::MatrixXd\<close>: its number of columns (kept also when it has no row) and its
  rows. Every row of a matrix has \<open>cols\<close> coefficients.
\<close>

record MatrixXd =
  cols :: nat
  coeffs :: "real list list"

definition rows :: "MatrixXd \<Rightarrow> nat" where
  "rows mat = length (coeffs mat)"

definition row :: "MatrixXd \<Rightarrow> nat \<Rightarrow> real list" where
  "row mat i = coeffs mat ! i"

definition wf_matrix :: "MatrixXd \<Rightarrow> bool" where
  "wf_matrix mat \<longleftrightarrow> list_all (\<lambda>r. length r = cols mat) (coeffs mat)"

definition conservativeResize_rows :: "nat \<Rightarrow> MatrixXd \<Rightarrow> MatrixXd" where
  "conservativeResize_rows new_rows mat =
     mat\<lparr>coeffs := take new_rows (coeffs mat)
                      @ replicate (new_rows - rows mat) (replicate (cols mat) 0)\<rparr>"

text \<open>The overload of \<^verbatim>\<open>PushBack\<close> that appends a row to a matrix.\<close>

definition PushBack_row :: "real list \<Rightarrow> MatrixXd \<Rightarrow> error + MatrixXd" where
  "PushBack_row vect mat =
     (if length vect \<noteq> cols mat then Inl AssertionFailed
      else
        let n = rows mat;
            mat1 = conservativeResize_rows (n + 1) mat
        in Inr (mat1\<lparr>coeffs := (coeffs mat1)[n := vect]\<rparr>))"

definition vsub :: "real list \<Rightarrow> real list \<Rightarrow> real list" where
  "vsub a b = map2 (-) a b"

definition norm_v :: "real list \<Rightarrow> real" where
  "norm_v v = sqrt (sum_list (map (\<lambda>x. x * x) v))"

text \<open>The test of the loop of \<^verbatim>\<open>CropData\<close> at row \<open>i\<close>, named for the statements below.\<close>

definition moved :: "MatrixXd \<Rightarrow> real \<Rightarrow> real \<Rightarrow> nat \<Rightarrow> bool" where
  "moved data_tmp dt dist_min i \<longleftrightarrow>
     norm_v (vsub (row data_tmp (i + 1)) (row data_tmp i)) > dt * dist_min"

text \<open>
  The loop of \<^verbatim>\<open>CropData\<close>, \<^verbatim>\<open>for(int i = 0; i < data_tmp.rows()-1; i++)\<close>, from index
  \<open>i\<close> on; the bound is computed in signed arithmetic, so a matrix without rows
  gives the bound \<open>-1\<close> and no iteration.
\<close>

function CropData_loop :: "MatrixXd \<Rightarrow> real \<Rightarrow> real \<Rightarrow> nat \<Rightarrow> MatrixXd \<Rightarrow> error + MatrixXd" where
  "CropData_loop data_tmp dt dist_min i data =
     (if int i < int (rows data_tmp) - 1 then
        (if norm_v (vsub (row data_tmp (i + 1)) (row data_tmp i)) > dt * dist_min then
           (case PushBack_row (row data_tmp i) data of
              Inl e \<Rightarrow> Inl e
            | Inr data1 \<Rightarrow> CropData_loop data_tmp dt dist_min (i + 1) data1)
         else CropData_loop data_tmp dt dist_min (i + 1) data)
      else Inr data)"
  by pat_completeness auto
termination
  by (relation "measure (\<lambda>(data_tmp, dt, dist_min, i, data). rows data_tmp - i)") auto

text \<open>
  \<^verbatim>\<open>CropData\<close> returns its flag together with the matrix it leaves in \<^verbatim>\<open>data\<close> (the
  message printed when no row is left is not modelled).
\<close>

definition CropData :: "MatrixXd \<Rightarrow> real \<Rightarrow> real \<Rightarrow> error + (bool \<times> MatrixXd)" where
  "CropData data dt dist_min =
     (let data_tmp = data;
          data0 = \<lparr>cols = cols data_tmp, coeffs = []\<rparr>
      in case CropData_loop data_tmp dt dist_min 0 data0 of
           Inl e \<Rightarrow> Inl e
         | Inr data1 \<Rightarrow> if rows data1 = 0 then Inr (False, data1) else Inr (True, data1))"

text \<open>
  \<^verbatim>\<open>SharedData<T>\<close>: the stored object and its \<^verbatim>\<open>boost::recursive_mutex\<close>, which is
  free or held by one thread a number of times. A try-lock succeeds for a thread
  exactly when the mutex is free or already held by that thread.
\<close>

record 'a SharedData =
  mtx_owner :: "nat option"
  mtx_count :: nat
  obj :: 'a

definition try_lock_succeeds :: "'a SharedData \<Rightarrow> nat \<Rightarrow> bool" where
  "try_lock_succeeds sd thread \<longleftrightarrow> mtx_owner sd = None \<or> mtx_owner sd = Some thread"

text \<open>
  \<^verbatim>\<open>WriteTryLock\<close> declares a deferred guard but locks the mutex itself with
  \<^verbatim>\<open>mtx_.try_lock()\<close>; the guard does not own the lock and releases nothing, so after a
  successful write the mutex stays held by the writer.
\<close>

definition WriteTryLock :: "nat \<Rightarrow> 'a \<Rightarrow> 'a SharedData \<Rightarrow> 'a SharedData" where
  "WriteTryLock thread new_obj sd =
     (if try_lock_succeeds sd thread
      then sd\<lparr>mtx_owner := Some thread, mtx_count := mtx_count sd + 1, obj := new_obj\<rparr>
      else sd)"

text \<open>
  \<^verbatim>\<open>ReadTryLock\<close> locks through its guard, which unlocks again when the function is
  left, so the mutex is as before. It returns \<^verbatim>\<open>obj_\<close> when the lock was taken. When
  it was not, control reaches the end of the function, which has no other
  \<^verbatim>\<open>return\<close>: no value is returned (\<open>None\<close>).
\<close>

definition ReadTryLock :: "nat \<Rightarrow> 'a SharedData \<Rightarrow> 'a option" where
  "ReadTryLock thread sd = (if try_lock_succeeds sd thread then Some (obj sd) else None)"

definition SharedData_ctor :: "'a \<Rightarrow> 'a SharedData" where
  "SharedData_ctor default_obj = \<lparr>mtx_owner = None, mtx_count = 0, obj = default_obj\<rparr>"


section \<open>Configuration and construction of the interface (mechanism\_manager\_interface.cpp)\<close>

text \<open>
  The YAML document: the node \<^verbatim>\<open>mechanism_manager_interface\<close> is present or not, and
  each of its three keys holds a value that converts to the wanted type or does not
  (\<open>None\<close>: the key is missing or malformed, and \<^verbatim>\<open>as<T>()\<close> throws).
\<close>

record yaml_section =
  yaml_position_dim :: "int option"
  yaml_phase_dot_th :: "real option"
  yaml_phase_dot_preauto_th :: "real option"

record yaml_main_node =
  mechanism_manager_interface :: "yaml_section option"

text \<open>
  \<^verbatim>\<open>ReadConfig\<close> returns \<^verbatim>\<open>false\<close> (\<open>Inr None\<close>) when the node is missing; otherwise it
  reads the three members in the source's order, checks its three assertions and
  returns \<^verbatim>\<open>true\<close> with the values \<open>(d, th, preauto_th)\<close> it has stored in the
  members \<^verbatim>\<open>position_dim_\<close>, \<^verbatim>\<open>phase_dot_th_\<close> and \<^verbatim>\<open>phase_dot_preauto_th_\<close>.
\<close>

definition ReadConfig :: "yaml_main_node \<Rightarrow> error + (int \<times> real \<times> real) option" where
  "ReadConfig main_node =
     (case mechanism_manager_interface main_node of
        None \<Rightarrow> Inr None
      | Some curr_node \<Rightarrow>
          (case yaml_position_dim curr_node of
             None \<Rightarrow> Inl YamlException
           | Some d \<Rightarrow>
          (case yaml_phase_dot_th curr_node of
             None \<Rightarrow> Inl YamlException
           | Some th \<Rightarrow>
          (case yaml_phase_dot_preauto_th curr_node of
             None \<Rightarrow> Inl YamlException
           | Some preauto_th \<Rightarrow>
               if \<not> (d = 1 \<or> d = 2) then Inl AssertionFailed
               else if \<not> th > 0 then Inl AssertionFailed
               else if \<not> preauto_th > th then Inl AssertionFailed
               else Inr (Some (d, th, preauto_th))))))"

text \<open>
  The interface object. The manager it owns is created by
  \<^verbatim>\<open>new MechanismManager(position_dim_)\<close>, a constructor that is not part of the sources
  at hand: it is the parameter \<open>new_MechanismManager\<close>, which may fail. A failure to
  create the server is caught and logged by the constructor and changes nothing here.
\<close>

record 'mm MechanismManagerInterface =
  position_dim :: int
  interface_phase_dot_th :: real
  interface_phase_dot_preauto_th :: real
  tmp_eigen_vector :: "real list"
  interface_robot_position :: "real list"
  interface_robot_velocity :: "real list"
  interface_f :: "real list"
  collision_detected :: bool
  interface_mm :: 'mm

definition MechanismManagerInterface_ctor ::
  "(int \<Rightarrow> error + 'mm) \<Rightarrow> yaml_main_node \<Rightarrow> error + 'mm MechanismManagerInterface" where
  "MechanismManagerInterface_ctor new_MechanismManager main_node =
     (case ReadConfig main_node of
        Inl e \<Rightarrow> Inl e
      | Inr None \<Rightarrow> Inl RuntimeError
      | Inr (Some (d, th, preauto_th)) \<Rightarrow>
          (case new_MechanismManager d of
             Inl e \<Rightarrow> Inl e
           | Inr m \<Rightarrow>
               Inr \<lparr>position_dim = d,
                    interface_phase_dot_th = th,
                    interface_phase_dot_preauto_th = preauto_th,
                    tmp_eigen_vector = replicate (nat d) 0,
                    interface_robot_position = replicate (nat d) 0,
                    interface_robot_velocity = replicate (nat d) 0,
                    interface_f = replicate (nat d) 0,
                    collision_detected = True,
                    interface_mm = m\<rparr>))"

section \<open>Double values\<close>

text \<open>
  The scales and the force are C++ \<^verbatim>\<open>double\<close>s. A finite double is taken as the real
  number it stands for (rounding, overflow and the sign of zero are not modelled);
  the values that are not numbers are kept, with the rules of IEEE 754 for them:
  a division by zero gives an infinity, or NaN for \<open>0/0\<close>; NaN and the infinities
  propagate through sums and products; every comparison with NaN is false.
\<close>

datatype fp = Fin real | PInf | MInf | NaN

definition inf_signed :: "real \<Rightarrow> fp" where
  "inf_signed a = (if a > 0 then PInf else if a < 0 then MInf else NaN)"

fun fadd :: "fp \<Rightarrow> fp \<Rightarrow> fp" where
  "fadd (Fin a) (Fin b) = Fin (a + b)"
| "fadd NaN _ = NaN"
| "fadd _ NaN = NaN"
| "fadd PInf MInf = NaN"
| "fadd MInf PInf = NaN"
| "fadd PInf _ = PInf"
| "fadd _ PInf = PInf"
| "fadd MInf _ = MInf"
| "fadd _ MInf = MInf"

fun fmul :: "fp \<Rightarrow> fp \<Rightarrow> fp" where
  "fmul (Fin a) (Fin b) = Fin (a * b)"
| "fmul NaN _ = NaN"
| "fmul _ NaN = NaN"
| "fmul PInf (Fin b) = inf_signed b"
| "fmul MInf (Fin b) = inf_signed (- b)"
| "fmul (Fin a) PInf = inf_signed a"
| "fmul (Fin a) MInf = inf_signed (- a)"
| "fmul PInf PInf = PInf"
| "fmul PInf MInf = MInf"
| "fmul MInf PInf = MInf"
| "fmul MInf MInf = PInf"

fun fdiv :: "fp \<Rightarrow> fp \<Rightarrow> fp" where
  "fdiv (Fin a) (Fin b) = (if b \<noteq> 0 then Fin (a / b) else inf_signed a)"
| "fdiv NaN _ = NaN"
| "fdiv _ NaN = NaN"
| "fdiv (Fin a) PInf = Fin 0"
| "fdiv (Fin a) MInf = Fin 0"
| "fdiv PInf (Fin b) = (if b \<ge> 0 then PInf else MInf)"
| "fdiv MInf (Fin b) = (if b \<ge> 0 then MInf else PInf)"
| "fdiv PInf PInf = NaN"
| "fdiv PInf MInf = NaN"
| "fdiv MInf PInf = NaN"
| "fdiv MInf MInf = NaN"

text \<open>The comparison \<^verbatim>\<open>a > b\<close> of two doubles.\<close>

fun fgt :: "fp \<Rightarrow> fp \<Rightarrow> bool" where
  "fgt (Fin a) (Fin b) = (a > b)"
| "fgt NaN _ = False"
| "fgt _ NaN = False"
| "fgt MInf _ = False"
| "fgt _ PInf = False"
| "fgt PInf _ = True"
| "fgt _ MInf = True"

text \<open>\<^verbatim>\<open>VectorXd::sum()\<close>; the sum of a vector without coefficients is 0.\<close>

definition fsum :: "fp list \<Rightarrow> fp" where
  "fsum xs = foldl fadd (Fin 0) xs"

section \<open>The mechanism manager (mechanism\_manager.cpp)\<close>

datatype prob_mode_t = HARD | POTENTIAL | SOFT

text \<open>
  A virtual mechanism, as far as the manager reads and sets it. The class itself
  (\<^verbatim>\<open>virtual_mechanism_gmr\<close>) is outside the sources at hand: the record holds what
  its getters return and the flags its setters store, and its methods \<^verbatim>\<open>Init\<close> and
  \<^verbatim>\<open>Update\<close> are parameters (\<open>vmInit\<close>, \<open>vmUpdate\<close>) of the functions below. The
  gains \<^verbatim>\<open>getK()\<close> and \<^verbatim>\<open>getB()\<close> are scalars, and what a mechanism returns are
  finite numbers. Probability and distance are asked for at a position.
\<close>

record vm_t =
  getProbability :: "real list \<Rightarrow> real"
  getDistance :: "real list \<Rightarrow> real"
  getState :: "real list"
  getStateDot :: "real list"
  getK :: real
  getB :: real
  getPhase :: real
  active :: bool
  weighted_dist :: bool
  forward :: bool

record MechanismManager =
  dim :: nat
  vm_vector :: "vm_t list"
  vm_nb :: nat
  prob_mode :: prob_mode_t
  use_weighted_dist :: "bool list"
  use_active_guide :: "bool list"
  active_guide :: "bool list"
  scales :: "fp list"
  phase :: "real list"
  robot_position :: "real list"
  vm_state :: "real list list"
  vm_state_dot :: "real list list"
  sum_scales :: fp
  scale_threshold :: real

text \<open>
  The configuration file as \<^verbatim>\<open>ReadConfig\<close> sees it: the virtual mechanisms built from
  the listed model files, the mode string and the two lists of flags.
\<close>

record mm_config =
  models :: "vm_t list"
  prob_mode_string :: string
  cfg_use_weighted_dist :: "bool list"
  cfg_use_active_guide :: "bool list"

definition read_prob_mode :: "string \<Rightarrow> prob_mode_t" where
  "read_prob_mode mode_string =
     (if mode_string = ''hard'' then HARD
      else if mode_string = ''potential'' then POTENTIAL
      else if mode_string = ''soft'' then SOFT
      else POTENTIAL)"

text \<open>The initialisation loop of the constructor, iteration \<open>i\<close>.\<close>

definition init_step :: "(vm_t \<Rightarrow> vm_t) \<Rightarrow> nat \<Rightarrow> MechanismManager \<Rightarrow> MechanismManager" where
  "init_step vmInit i m =
     m\<lparr>vm_vector := (vm_vector m)[i := (vmInit (vm_vector m ! i))\<lparr>weighted_dist := use_weighted_dist m ! i\<rparr>],
       vm_state := vm_state m @ [replicate (dim m) 0],
       vm_state_dot := vm_state_dot m @ [replicate (dim m) 0]\<rparr>"

text \<open>
  The constructor. A configuration file that cannot be loaded (\<open>None\<close>) is only
  logged and leaves \<^verbatim>\<open>vm_vector_\<close> empty, so the assertion \<^verbatim>\<open>vm_nb_ >= 1\<close> fails. The
  loop reads \<^verbatim>\<open>use_weighted_dist_[i]\<close> for every mechanism; a list shorter than that
  is read out of range, which is given as the error \<open>OutOfRange\<close>. A file that loads
  is taken to hold its four keys. The state buffers \<^verbatim>\<open>VectorXd(dim_)\<close>, which Eigen
  leaves uninitialised, are written as zeros; the tick overwrites them before it
  reads them.
\<close>

definition MechanismManager_ctor :: "(vm_t \<Rightarrow> vm_t) \<Rightarrow> mm_config option \<Rightarrow> error + MechanismManager" where
  "MechanismManager_ctor vmInit config_file =
     (case config_file of
        None \<Rightarrow> Inl AssertionFailed
      | Some cfg \<Rightarrow>
          let n = length (models cfg) in
          if \<not> n \<ge> 1 then Inl AssertionFailed
          else if length (cfg_use_weighted_dist cfg) < n then Inl OutOfRange
          else
            let m0 = \<lparr>dim = 3, vm_vector = models cfg, vm_nb = n,
                      prob_mode = read_prob_mode (prob_mode_string cfg),
                      use_weighted_dist = cfg_use_weighted_dist cfg,
                      use_active_guide = cfg_use_active_guide cfg,
                      active_guide = [], scales = [], phase = [], robot_position = [],
                      vm_state = [], vm_state_dot = [], sum_scales = Fin 0,
                      scale_threshold = 0\<rparr>;
                m1 = fold (init_step vmInit) [0..<n] m0
            in Inr (m1\<lparr>active_guide := replicate n False,
                       scales := replicate n (Fin 0),
                       phase := replicate n 0,
                       robot_position := replicate (dim m1) 0,
                       scale_threshold := 1 / real n + 2 / 10\<rparr>))"

text \<open>
  The class invariant on the sizes, which the constructor sets up: one virtual
  mechanism, scale, phase, flag and state buffer for each index below \<^verbatim>\<open>vm_nb_\<close>.
\<close>

definition wf_manager :: "MechanismManager \<Rightarrow> bool" where
  "wf_manager m \<longleftrightarrow>
     length (vm_vector m) = vm_nb m \<and> length (scales m) = vm_nb m
     \<and> length (phase m) = vm_nb m \<and> length (active_guide m) = vm_nb m
     \<and> length (vm_state m) = vm_nb m \<and> length (vm_state_dot m) = vm_nb m"

text \<open>First loop of \<^verbatim>\<open>Update\<close>, iteration \<open>i\<close>: step the mechanism, store its raw score and its phase.\<close>

definition score_step ::
  "(vm_t \<Rightarrow> real list \<Rightarrow> real list \<Rightarrow> real \<Rightarrow> vm_t) \<Rightarrow> real list \<Rightarrow> real list \<Rightarrow> real
     \<Rightarrow> nat \<Rightarrow> MechanismManager \<Rightarrow> MechanismManager" where
  "score_step vmUpdate robot_pos robot_vel dt i m =
     (let vm = vmUpdate (vm_vector m ! i) robot_pos robot_vel dt;
          m1 = m\<lparr>vm_vector := (vm_vector m)[i := vm]\<rparr>;
          m2 = (case prob_mode m1 of
                  HARD \<Rightarrow> m1\<lparr>scales := (scales m1)[i := Fin (getProbability vm robot_pos)]\<rparr>
                | POTENTIAL \<Rightarrow> m1\<lparr>scales := (scales m1)[i := Fin (exp (- 10 * getDistance vm robot_pos))]\<rparr>
                | SOFT \<Rightarrow> m1\<lparr>scales := (scales m1)[i := Fin (getProbability vm robot_pos)]\<rparr>)
      in m2\<lparr>phase := (phase m2)[i := getPhase vm]\<rparr>)"

text \<open>Vector arithmetic of the force: real vectors, then the product with a scale and the sum into \<^verbatim>\<open>f_out\<close>.\<close>

definition vadd :: "real list \<Rightarrow> real list \<Rightarrow> real list" where
  "vadd a b = map2 (+) a b"

definition smul :: "real \<Rightarrow> real list \<Rightarrow> real list" where
  "smul k v = map (\<lambda>x. k * x) v"

definition fsmul :: "fp \<Rightarrow> real list \<Rightarrow> fp list" where
  "fsmul s v = map (\<lambda>x. fmul s (Fin x)) v"

definition fvadd :: "fp list \<Rightarrow> fp list \<Rightarrow> fp list" where
  "fvadd a b = map2 fadd a b"

text \<open>
  Second loop of \<^verbatim>\<open>Update\<close>, iteration \<open>i\<close>: the scale by mode (\<^verbatim>\<open>exp(..) * scales_(i)/sum_\<close>
  is \<open>(exp(..) * scales_(i)) / sum_\<close>), the state buffers, the contribution to the
  force. Eigen adds and subtracts vectors of one size only; the statements about the
  force below are for mechanisms whose state and state derivative have \<^verbatim>\<open>dim_\<close>
  coefficients.
\<close>

definition blend_step ::
  "real list \<Rightarrow> real list \<Rightarrow> nat \<Rightarrow> MechanismManager \<times> fp list \<Rightarrow> MechanismManager \<times> fp list" where
  "blend_step robot_pos robot_vel i mf =
     (let m = fst mf; f_out = snd mf;
          vm = vm_vector m ! i;
          m1 = (case prob_mode m of
                  HARD \<Rightarrow> m\<lparr>scales := (scales m)[i := fdiv (scales m ! i) (sum_scales m)]\<rparr>
                | POTENTIAL \<Rightarrow> m\<lparr>scales := (scales m)[i := scales m ! i]\<rparr>
                | SOFT \<Rightarrow> m\<lparr>scales := (scales m)[i :=
                            fdiv (fmul (Fin (exp (- 10 * getDistance vm robot_pos))) (scales m ! i))
                                 (sum_scales m)]\<rparr>);
          m2 = m1\<lparr>vm_state := (vm_state m1)[i := getState vm]\<rparr>;
          m3 = m2\<lparr>vm_state_dot := (vm_state_dot m2)[i := getStateDot vm]\<rparr>
      in (m3,
          fvadd f_out
            (fsmul (scales m3 ! i)
               (vadd (smul (getK vm) (vsub (vm_state m3 ! i) robot_pos))
                     (smul (getB vm) (vsub (vm_state_dot m3 ! i) robot_vel))))))"

text \<open>
  \<^verbatim>\<open>Update(robot_position, robot_velocity, dt, f_out)\<close>: the four assertions, the two
  loops over \<open>i = 0, ..., vm_nb_ - 1\<close> with the sum between them. It returns the
  manager and the force written to \<^verbatim>\<open>f_out\<close> (publishing is not modelled).
\<close>

definition Update ::
  "(vm_t \<Rightarrow> real list \<Rightarrow> real list \<Rightarrow> real \<Rightarrow> vm_t) \<Rightarrow> MechanismManager
     \<Rightarrow> real list \<Rightarrow> real list \<Rightarrow> real \<Rightarrow> fp list \<Rightarrow> error + (MechanismManager \<times> fp list)" where
  "Update vmUpdate m robot_pos robot_vel dt f_out =
     (if length robot_pos \<noteq> dim m then Inl AssertionFailed
      else if length robot_vel \<noteq> dim m then Inl AssertionFailed
      else if \<not> dt > 0 then Inl AssertionFailed
      else if length f_out \<noteq> dim m then Inl AssertionFailed
      else
        let m1 = m\<lparr>robot_position := robot_pos\<rparr>;
            m2 = fold (score_step vmUpdate robot_pos robot_vel dt) [0..<vm_nb m1] m1;
            m3 = m2\<lparr>sum_scales := fsum (scales m2)\<rparr>;
            f0 = map (\<lambda>_. Fin 0) f_out
        in Inr (fold (blend_step robot_pos robot_vel) [0..<vm_nb m3] (m3, f0)))"

text \<open>
  The overload with \<^verbatim>\<open>force_applied\<close>: the loop that sets each guide active or not
  (iteration \<open>i\<close> is \<open>active_guide_step\<close>), then the \<^verbatim>\<open>Update\<close> above.
\<close>

definition active_guide_step :: "bool \<Rightarrow> nat \<Rightarrow> MechanismManager \<Rightarrow> MechanismManager" where
  "active_guide_step force_applied i m =
     (if force_applied = False \<and> fgt (scales m ! i) (Fin (scale_threshold m))
         \<and> use_active_guide m ! i = True
      then m\<lparr>vm_vector := (vm_vector m)[i := (vm_vector m ! i)\<lparr>active := True\<rparr>],
              active_guide := (active_guide m)[i := True]\<rparr>
      else m\<lparr>vm_vector := (vm_vector m)[i := (vm_vector m ! i)\<lparr>active := False\<rparr>],
              active_guide := (active_guide m)[i := False]\<rparr>)"

definition set_active_guides :: "bool \<Rightarrow> MechanismManager \<Rightarrow> MechanismManager" where
  "set_active_guides force_applied m = fold (active_guide_step force_applied) [0..<vm_nb m] m"

definition Update_force_applied ::
  "(vm_t \<Rightarrow> real list \<Rightarrow> real list \<Rightarrow> real \<Rightarrow> vm_t) \<Rightarrow> MechanismManager
     \<Rightarrow> real list \<Rightarrow> real list \<Rightarrow> real \<Rightarrow> fp list \<Rightarrow> bool \<Rightarrow> error + (MechanismManager \<times> fp list)" where
  "Update_force_applied vmUpdate m robot_pos robot_vel dt f_out force_applied =
     Update vmUpdate (set_active_guides force_applied m) robot_pos robot_vel dt f_out"

text \<open>The overload with \<^verbatim>\<open>move_forward\<close>: the direction of every mechanism, then the overload above.\<close>

definition direction_step :: "bool \<Rightarrow> nat \<Rightarrow> MechanismManager \<Rightarrow> MechanismManager" where
  "direction_step move_forward i m =
     (if move_forward
      then m\<lparr>vm_vector := (vm_vector m)[i := (vm_vector m ! i)\<lparr>forward := True\<rparr>]\<rparr>
      else m\<lparr>vm_vector := (vm_vector m)[i := (vm_vector m ! i)\<lparr>forward := False\<rparr>]\<rparr>)"

definition Update_move_forward ::
  "(vm_t \<Rightarrow> real list \<Rightarrow> real list \<Rightarrow> real \<Rightarrow> vm_t) \<Rightarrow> MechanismManager
     \<Rightarrow> real list \<Rightarrow> real list \<Rightarrow> real \<Rightarrow> fp list \<Rightarrow> bool \<Rightarrow> bool
     \<Rightarrow> error + (MechanismManager \<times> fp list)" where
  "Update_move_forward vmUpdate m robot_pos robot_vel dt f_out force_applied move_forward =
     Update_force_applied vmUpdate (fold (direction_step move_forward) [0..<vm_nb m] m)
       robot_pos robot_vel dt f_out force_applied"

text \<open>
  Names for three parts of \<^verbatim>\<open>Update\<close>, used to state what its loops compute: the raw
  score stored by the first loop, the scale the second loop makes of a raw score
  \<open>s\<close> and the sum \<open>sigma\<close>, and the force of one mechanism before it is scaled.
\<close>

definition raw_score :: "prob_mode_t \<Rightarrow> vm_t \<Rightarrow> real list \<Rightarrow> real" where
  "raw_score mode vm robot_pos =
     (case mode of
        HARD \<Rightarrow> getProbability vm robot_pos
      | POTENTIAL \<Rightarrow> exp (- 10 * getDistance vm robot_pos)
      | SOFT \<Rightarrow> getProbability vm robot_pos)"

definition weight :: "prob_mode_t \<Rightarrow> fp \<Rightarrow> vm_t \<Rightarrow> real list \<Rightarrow> fp \<Rightarrow> fp" where
  "weight mode sigma vm robot_pos s =
     (case mode of
        HARD \<Rightarrow> fdiv s sigma
      | POTENTIAL \<Rightarrow> s
      | SOFT \<Rightarrow> fdiv (fmul (Fin (exp (- 10 * getDistance vm robot_pos))) s) sigma)"

definition vm_force :: "vm_t \<Rightarrow> real list \<Rightarrow> real list \<Rightarrow> real list" where
  "vm_force vm robot_pos robot_vel =
     vadd (smul (getK vm) (vsub (getState vm) robot_pos))
          (smul (getB vm) (vsub (getStateDot vm) robot_vel))"

text \<open>The condition of the loop of the \<^verbatim>\<open>force_applied\<close> overload at index \<open>i\<close>.\<close>

definition guide_on :: "bool \<Rightarrow> MechanismManager \<Rightarrow> nat \<Rightarrow> bool" where
  "guide_on force_applied m i \<longleftrightarrow>
     \<not> force_applied \<and> fgt (scales m ! i) (Fin (scale_threshold m)) \<and> use_active_guide m ! i"

text \<open>
  The managers that can arise: the one the constructor returns, and the one left by
  any of the three \<^verbatim>\<open>Update\<close> overloads called on a manager that can arise.
\<close>

inductive reachable ::
  "(vm_t \<Rightarrow> vm_t) \<Rightarrow> (vm_t \<Rightarrow> real list \<Rightarrow> real list \<Rightarrow> real \<Rightarrow> vm_t)
     \<Rightarrow> mm_config option \<Rightarrow> MechanismManager \<Rightarrow> bool"
  for vmInit vmUpdate config_file where
    constructed:
      "MechanismManager_ctor vmInit config_file = Inr m \<Longrightarrow> reachable vmInit vmUpdate config_file m"
  | updated:
      "reachable vmInit vmUpdate config_file m \<Longrightarrow>
       Update vmUpdate m robot_pos robot_vel dt f_out = Inr (m', f') \<Longrightarrow>
       reachable vmInit vmUpdate config_file m'"
  | updated_force_applied:
      "reachable vmInit vmUpdate config_file m \<Longrightarrow>
       Update_force_applied vmUpdate m robot_pos robot_vel dt f_out force_applied = Inr (m', f') \<Longrightarrow>
       reachable vmInit vmUpdate config_file m'"
  | updated_move_forward:
      "reachable vmInit vmUpdate config_file m \<Longrightarrow>
       Update_move_forward vmUpdate m robot_pos robot_vel dt f_out force_applied move_forward
         = Inr (m', f') \<Longrightarrow>
       reachable vmInit vmUpdate config_file m'"

text \<open>
  What holds of every such manager: the sizes agree, there is a mechanism, the
  count and the guide flags are those of the configuration, and the threshold is
  the one computed from the count.
\<close>

definition manager_inv :: "mm_config option \<Rightarrow> MechanismManager \<Rightarrow> bool" where
  "manager_inv config_file m \<longleftrightarrow>
     wf_manager m \<and> 1 \<le> vm_nb m
     \<and> (\<exists>cfg. config_file = Some cfg \<and> vm_nb m = length (models cfg)
              \<and> use_active_guide m = cfg_use_active_guide cfg)
     \<and> scale_threshold m = 1 / real (vm_nb m) + 2 / 10"

subsection \<open>Mechanisms and managers for the examples\<close>

text \<open>
  A mechanism whose \<^verbatim>\<open>Update\<close> changes nothing that the manager reads, a mechanism
  with a constant probability \<open>pr\<close>, a constant distance \<open>d\<close> and the state \<open>c\<close>
  (unit stiffness, no damping), a configuration of such mechanisms, and the manager
  the constructor makes of it.
\<close>

definition vmUpdate_keep :: "vm_t \<Rightarrow> real list \<Rightarrow> real list \<Rightarrow> real \<Rightarrow> vm_t" where
  "vmUpdate_keep vm robot_pos robot_vel dt = vm"

definition test_vm :: "real \<Rightarrow> real \<Rightarrow> real list \<Rightarrow> vm_t" where
  "test_vm pr d c =
     \<lparr>getProbability = (\<lambda>_. pr), getDistance = (\<lambda>_. d), getState = c,
      getStateDot = [0, 0, 0], getK = 1, getB = 0, getPhase = 0,
      active = False, weighted_dist = False, forward = True\<rparr>"

definition test_config :: "string \<Rightarrow> vm_t list \<Rightarrow> mm_config" where
  "test_config mode_string vms =
     \<lparr>models = vms, prob_mode_string = mode_string,
      cfg_use_weighted_dist = replicate (length vms) False,
      cfg_use_active_guide = replicate (length vms) True\<rparr>"

definition test_manager :: "prob_mode_t \<Rightarrow> vm_t list \<Rightarrow> MechanismManager" where
  "test_manager mode vms =
     \<lparr>dim = 3, vm_vector = vms, vm_nb = length vms, prob_mode = mode,
      use_weighted_dist = replicate (length vms) False,
      use_active_guide = replicate (length vms) True,
      active_guide = replicate (length vms) False,
      scales = replicate (length vms) (Fin 0),
      phase = replicate (length vms) 0,
      robot_position = [0, 0, 0],
      vm_state = replicate (length vms) [0, 0, 0],
      vm_state_dot = replicate (length vms) [0, 0, 0],
      sum_scales = Fin 0,
      scale_threshold = 1 / real (length vms) + 2 / 10\<rparr>"

section \<open>Theorems: activation automaton\<close>

lemma Step_leaves_AUTO:
  "state a = AUTO \<Longrightarrow> state (Step a pd pdr c) = (if c then MANUAL else AUTO)"
  by (simp add: Step_def)

lemma StepTrace_nth_0: "StepTrace a ins ! 0 = a"
  by (induction a ins rule: StepTrace.induct) simp_all

lemma StepTrace_length: "length (StepTrace a ins) = Suc (length ins)"
  by (induction a ins rule: StepTrace.induct) simp_all

text \<open>
  Claim C5. Started in Manual by the constructor with thresholds
  \<open>phase_dot_preauto_th > phase_dot_th > 0\<close>, and for \<open>0 < \<delta> < phase_dot_preauto_th -
  phase_dot_ref - phase_dot_th\<close>: one step with \<open>phase_dot = phase_dot_preauto_th + \<delta>\<close>
  gives PreAuto, a second step with \<open>phase_dot = phase_dot_ref + phase_dot_th - \<delta>\<close>
  gives Auto; and no single step from Manual gives Auto, whatever its inputs.
\<close>

theorem automaton_reaches_auto_in_two_steps:
  assumes "th > 0" and "preauto_th > th"
    and "0 < \<delta>" and "\<delta> < preauto_th - phase_dot_ref - th"
  shows "\<exists>a. VirtualMechanismAutom_ctor preauto_th th = Inr a
           \<and> state a = MANUAL
           \<and> state (Step a (preauto_th + \<delta>) phase_dot_ref c1) = PREAUTO
           \<and> state (Step (Step a (preauto_th + \<delta>) phase_dot_ref c1)
                        (phase_dot_ref + th - \<delta>) phase_dot_ref c2) = AUTO
           \<and> (\<forall>pd pdr c. state (Step a pd pdr c) \<noteq> AUTO)"
  using assms by (simp add: VirtualMechanismAutom_ctor_def Step_def)

theorem automaton_reaches_auto_in_two_steps_witness:
  "\<exists>a. VirtualMechanismAutom_ctor 2 (1/2) = Inr a
           \<and> state a = MANUAL
           \<and> state (Step a (2 + 1/4) 1 True) = PREAUTO
           \<and> state (Step (Step a (2 + 1/4) 1 True) (1 + 1/2 - 1/4) 1 True) = AUTO
           \<and> (\<forall>pd pdr c. state (Step a pd pdr c) \<noteq> AUTO)"
  using automaton_reaches_auto_in_two_steps [of "1/2" 2 "1/4" 1 True True] by simp

text \<open>
  Claim C6. Along every run of the automaton, a step that takes the state from Auto
  to Manual had \<open>collision_detected = true\<close>; and a step from Auto with
  \<open>collision_detected = false\<close> ends in Auto.
\<close>

theorem auto_to_manual_requires_collision:
  "(\<forall>k < length ins.
       state (StepTrace a ins ! k) = AUTO \<and> state (StepTrace a ins ! Suc k) = MANUAL
       \<longrightarrow> snd (snd (ins ! k)))
   \<and> (state a = AUTO \<longrightarrow> state (Step a pd pdr False) = AUTO)"
proof
  show "\<forall>k < length ins.
       state (StepTrace a ins ! k) = AUTO \<and> state (StepTrace a ins ! Suc k) = MANUAL
       \<longrightarrow> snd (snd (ins ! k))"
  proof (induction a ins rule: StepTrace.induct)
    case (1 a)
    show ?case by simp
  next
    case (2 a pd pdr c ins)
    show ?case
    proof (intro allI impI)
      fix k
      assume k: "k < length ((pd, pdr, c) # ins)"
        and st: "state (StepTrace a ((pd, pdr, c) # ins) ! k) = AUTO
                 \<and> state (StepTrace a ((pd, pdr, c) # ins) ! Suc k) = MANUAL"
      show "snd (snd (((pd, pdr, c) # ins) ! k))"
      proof (cases k)
        case 0
        with st have "state a = AUTO" and "state (Step a pd pdr c) = MANUAL"
          by (simp_all add: StepTrace_nth_0)
        then have "c"
          using Step_leaves_AUTO [of a pd pdr c] by (simp split: if_splits)
        with 0 show ?thesis by simp
      next
        case (Suc j)
        with k st 2 show ?thesis by simp
      qed
    qed
  qed
next
  show "state a = AUTO \<longrightarrow> state (Step a pd pdr False) = AUTO"
    by (simp add: Step_leaves_AUTO)
qed

theorem auto_to_manual_requires_collision_witness:
  "state (StepTrace \<lparr>phase_dot_preauto_th = 2, phase_dot_th = 1/2, state = AUTO, loopCnt = 0\<rparr>
            [(0, 1, True)] ! 0) = AUTO
   \<and> state (StepTrace \<lparr>phase_dot_preauto_th = 2, phase_dot_th = 1/2, state = AUTO, loopCnt = 0\<rparr>
            [(0, 1, True)] ! Suc 0) = MANUAL
   \<and> snd (snd ([(0::real, 1::real, True)] ! 0))
   \<and> state (Step \<lparr>phase_dot_preauto_th = 2, phase_dot_th = 1/2, state = AUTO, loopCnt = 0\<rparr>
              0 1 False) = AUTO"
  using auto_to_manual_requires_collision
    [of "[(0, 1, True)]"
        "\<lparr>phase_dot_preauto_th = 2, phase_dot_th = 1/2, state = AUTO, loopCnt = 0\<rparr>" 0 1]
  by (simp add: Step_def)

section \<open>Theorems: Eigen containers\<close>

lemma assign_coeffs_length: "length (assign_coeffs dst src n vect) = length vect"
  by (induction dst src n vect rule: assign_coeffs.induct) simp_all

lemma assign_coeffs_shift:
  "d + n < length vect \<Longrightarrow>
   assign_coeffs d (Suc d) n vect = take d vect @ take n (drop (Suc d) vect) @ drop (d + n) vect"
proof (induction n arbitrary: d vect)
  case 0
  then show ?case by simp
next
  case (Suc n)
  let ?v = "vect[d := vect ! Suc d]"
  from Suc.prems have len: "Suc d + n < length ?v" by simp
  have "assign_coeffs d (Suc d) (Suc n) vect = assign_coeffs (Suc d) (Suc (Suc d)) n ?v"
    by simp
  also have "\<dots> = take (Suc d) ?v @ take n (drop (Suc (Suc d)) ?v) @ drop (Suc d + n) ?v"
    using Suc.IH [OF len] .
  also have "take (Suc d) ?v = take d vect @ [vect ! Suc d]"
    using Suc.prems by (simp add: take_Suc_conv_app_nth)
  also have "drop (Suc (Suc d)) ?v = drop (Suc (Suc d)) vect"
    by simp
  also have "drop (Suc d + n) ?v = drop (d + Suc n) vect"
    by simp
  also have "(take d vect @ [vect ! Suc d]) @ take n (drop (Suc (Suc d)) vect) @ drop (d + Suc n) vect
     = take d vect @ take (Suc n) (drop (Suc d) vect) @ drop (d + Suc n) vect"
    using Suc.prems by (simp add: Cons_nth_drop_Suc [symmetric])
  finally show ?case .
qed

lemma Delete_in_range:
  assumes "0 \<le> idx" and "idx < int (length vect)"
  shows "Delete idx vect = Inr (take (nat idx) vect @ drop (Suc (nat idx)) vect)"
proof -
  define d where "d = nat idx"
  define n where "n = length vect - d - 1"
  have idx: "idx = int d" and d: "d < length vect" using assms by (simp_all add: d_def)
  have n: "int (length vect) - idx - 1 = int n" "d + n < length vect" "length vect - n = Suc d"
    "d + n = length vect - 1"
    using d by (simp_all add: n_def idx)
  have "assign_coeffs d (Suc d) n vect
        = take d vect @ take n (drop (Suc d) vect) @ drop (d + n) vect"
    using n(2) by (rule assign_coeffs_shift)
  moreover have "take n (drop (Suc d) vect) = drop (Suc d) vect"
    using d by (simp add: n_def)
  ultimately have "take (length vect - 1) (assign_coeffs d (Suc d) n vect)
        = take d vect @ drop (Suc d) vect"
    using d by (simp add: n_def)
  moreover note n
  moreover have "assign_coeffs d (Suc d) n vect \<noteq> []"
    using d assign_coeffs_length [of d "Suc d" n vect] by auto
  ultimately show ?thesis
    using d n by (simp add: Delete_def Let_def segment_ok_def tail_ok_def idx
        assign_coeffs_length conservativeResize_def d_def [symmetric])
qed

lemma Delete_out_of_range:
  "idx < 0 \<or> int (length vect) \<le> idx \<Longrightarrow> Delete idx vect = Inl AssertionFailed"
  by (auto simp add: Delete_def Let_def segment_ok_def tail_ok_def)

lemma PushBack_append: "PushBack x vect = vect @ [x]"
  by (simp add: PushBack_def conservativeResize_def Let_def)


text \<open>
  Claim C9. Appending \<open>x\<close> to \<open>v\<close> with \<^verbatim>\<open>PushBack\<close> and deleting the index of the appended
  coefficient gives \<open>v\<close> back; and for a vector of size \<open>n\<close> and \<open>0 \<le> idx < n\<close>,
  \<^verbatim>\<open>Delete\<close> gives the vector of size \<open>n - 1\<close> made of the coefficients before \<open>idx\<close>
  followed by those after it, in their order.
\<close>

theorem Delete_removes_element:
  "Delete (int (length v)) (PushBack x v) = Inr v
   \<and> (0 \<le> idx \<and> idx < int (length vect) \<longrightarrow>
        (\<exists>r. Delete idx vect = Inr r \<and> length r = length vect - 1
             \<and> r = take (nat idx) vect @ drop (Suc (nat idx)) vect))"
proof
  have "Delete (int (length v)) (PushBack x v) = Inr (take (length v) (v @ [x]) @ drop (Suc (length v)) (v @ [x]))"
    using Delete_in_range [of "int (length v)" "v @ [x]"] by (simp add: PushBack_append)
  then show "Delete (int (length v)) (PushBack x v) = Inr v" by simp
next
  show "0 \<le> idx \<and> idx < int (length vect) \<longrightarrow>
        (\<exists>r. Delete idx vect = Inr r \<and> length r = length vect - 1
             \<and> r = take (nat idx) vect @ drop (Suc (nat idx)) vect)"
    using Delete_in_range [of idx vect] by auto
qed

theorem Delete_removes_element_witness:
  "Delete (int (length [1, 2, 3])) (PushBack 4 [1, 2, 3]) = Inr [1, 2, 3]
   \<and> (0::int) \<le> 1 \<and> (1::int) < int (length [5::real, 6, 7])
   \<and> Delete 1 [5, 6, 7] = Inr [5, 7]"
  using Delete_removes_element [of "[1, 2, 3]" 4 1 "[5, 6, 7]"] by simp

lemma PushBack_row_append:
  "length vect = cols mat \<Longrightarrow> PushBack_row vect mat = Inr (mat\<lparr>coeffs := coeffs mat @ [vect]\<rparr>)"
  by (simp add: PushBack_row_def conservativeResize_rows_def rows_def Let_def)

lemma wf_matrix_row: "wf_matrix mat \<Longrightarrow> i < rows mat \<Longrightarrow> length (row mat i) = cols mat"
  by (simp add: wf_matrix_def rows_def row_def list_all_length)

lemma CropData_loop_filter:
  "wf_matrix data_tmp \<Longrightarrow> cols data = cols data_tmp \<Longrightarrow>
   CropData_loop data_tmp dt dist_min i data =
     Inr (data\<lparr>coeffs := coeffs data
            @ map (row data_tmp) (filter (moved data_tmp dt dist_min) [i..<rows data_tmp - 1])\<rparr>)"
proof (induction data_tmp dt dist_min i data rule: CropData_loop.induct)
  case (1 data_tmp dt dist_min i data)
  show ?case
  proof (cases "int i < int (rows data_tmp) - 1")
    case False
    then have "[i..<rows data_tmp - 1] = []" by simp
    with False show ?thesis
      by (subst CropData_loop.simps) simp
  next
    case True
    then have i: "i < rows data_tmp - 1" "i < rows data_tmp" by simp_all
    then have upt: "[i..<rows data_tmp - 1] = i # [i + 1..<rows data_tmp - 1]"
      by (simp add: upt_conv_Cons)
    have len: "length (row data_tmp i) = cols data"
      using "1.prems" i by (simp add: wf_matrix_row)
    show ?thesis
    proof (cases "moved data_tmp dt dist_min i")
      case False
      then have cond: "\<not> norm_v (vsub (row data_tmp (i + 1)) (row data_tmp i)) > dt * dist_min"
        by (simp add: moved_def)
      then have "CropData_loop data_tmp dt dist_min i data
                 = CropData_loop data_tmp dt dist_min (i + 1) data"
        using True by (subst CropData_loop.simps) simp
      also have "\<dots> = Inr (data\<lparr>coeffs := coeffs data
            @ map (row data_tmp) (filter (moved data_tmp dt dist_min) [i + 1..<rows data_tmp - 1])\<rparr>)"
        using "1.IH"(2) [OF True cond "1.prems"] .
      finally show ?thesis using False upt by simp
    next
      case mv: True
      then have cond: "norm_v (vsub (row data_tmp (i + 1)) (row data_tmp i)) > dt * dist_min"
        by (simp add: moved_def)
      let ?data1 = "data\<lparr>coeffs := coeffs data @ [row data_tmp i]\<rparr>"
      have pb: "PushBack_row (row data_tmp i) data = Inr ?data1"
        using len by (rule PushBack_row_append)
      then have "CropData_loop data_tmp dt dist_min i data
                 = CropData_loop data_tmp dt dist_min (i + 1) ?data1"
        using True cond by (subst CropData_loop.simps) simp
      also have "\<dots> = Inr (?data1\<lparr>coeffs := coeffs ?data1
            @ map (row data_tmp) (filter (moved data_tmp dt dist_min) [i + 1..<rows data_tmp - 1])\<rparr>)"
        using "1.IH"(1) [OF True cond pb "1.prems"(1)] "1.prems"(2) by simp
      finally show ?thesis using mv upt by simp
    qed
  qed
qed


text \<open>
  Claim C10. \<^verbatim>\<open>CropData\<close> leaves in \<^verbatim>\<open>data\<close> the rows \<open>i\<close> with \<open>0 \<le> i < rows - 1\<close> for
  which the norm of \<open>row (i+1) - row i\<close> exceeds \<open>dt * dist_min\<close>, in their order (so
  the last row is never among them), and returns \<^verbatim>\<open>false\<close> exactly when no row is
  left.
\<close>

theorem CropData_keeps_moved_rows:
  assumes "wf_matrix data"
  shows "\<exists>kept. CropData data dt dist_min = Inr (kept \<noteq> [], \<lparr>cols = cols data, coeffs = kept\<rparr>)
           \<and> kept = map (row data) (filter (moved data dt dist_min) [0..<rows data - 1])"
  using CropData_loop_filter [OF assms, of "\<lparr>cols = cols data, coeffs = []\<rparr>" dt dist_min 0]
  by (simp add: CropData_def rows_def)

theorem CropData_keeps_moved_rows_witness:
  "wf_matrix \<lparr>cols = 2, coeffs = [[0, 0], [1, 0], [1, 0], [1, 1]]\<rparr>
   \<and> CropData \<lparr>cols = 2, coeffs = [[0, 0], [1, 0], [1, 0], [1, 1]]\<rparr> (1/10) (1/100)
       = Inr (True, \<lparr>cols = 2, coeffs = [[0, 0], [1, 0]]\<rparr>)"
proof -
  have wf: "wf_matrix \<lparr>cols = 2, coeffs = [[0, 0], [1, 0], [1, 0], [1, 1]]\<rparr>"
    by (simp add: wf_matrix_def)
  have upt: "[0..<3] = [0, 1, 2]"
    by (simp add: upt_rec)
  show ?thesis
    using wf CropData_keeps_moved_rows [OF wf, of "1/10" "1/100"]
    by (simp add: rows_def row_def moved_def vsub_def norm_v_def upt)
qed

section \<open>Theorems: shared data\<close>

text \<open>
  Claim C4 (evaluation of the code where the claim fails). Thread 0 writes the
  snapshot with \<^verbatim>\<open>WriteTryLock\<close>; the mutex stays held by thread 0, so the try-lock of
  a reader on thread 1 fails and \<^verbatim>\<open>ReadTryLock\<close> returns no value there, neither the
  snapshot nor an earlier one. The writer's own thread still reads the snapshot.
\<close>

theorem ReadTryLock_contended_returns_no_value:
  "ReadTryLock 1 (WriteTryLock 0 (42::nat) (SharedData_ctor 0)) = None
   \<and> ReadTryLock 0 (WriteTryLock 0 (42::nat) (SharedData_ctor 0)) = Some 42"
  by (simp add: ReadTryLock_def WriteTryLock_def SharedData_ctor_def try_lock_succeeds_def)

section \<open>Theorems: construction of the interface\<close>

text \<open>
  Claim C8 as stated fails at \<open>position_dim = 3\<close>: with valid thresholds and a
  manager constructor that succeeds, the assertion
  \<^verbatim>\<open>position_dim_ == 1 || position_dim_ == 2\<close> of \<^verbatim>\<open>ReadConfig\<close> stops the construction.
\<close>

theorem interface_ctor_rejects_dim_3:
  "MechanismManagerInterface_ctor (\<lambda>d. Inr d)
     \<lparr>mechanism_manager_interface =
        Some \<lparr>yaml_position_dim = Some 3, yaml_phase_dot_th = Some (1/2),
              yaml_phase_dot_preauto_th = Some 2\<rparr>\<rparr>
   = Inl AssertionFailed"
  by (simp add: MechanismManagerInterface_ctor_def ReadConfig_def)

text \<open>
  Claim C8, amended. With thresholds \<open>phase_dot_preauto_th > phase_dot_th > 0\<close> and a
  manager whose own construction succeeds: for \<open>position_dim\<close> 1 or 2 the
  construction succeeds, stores that dimension, creates the manager with it and
  sizes its vectors by it; for every other \<open>position_dim\<close>, 3 included, the
  assertion fails. Without the configuration node the constructor throws its
  runtime error.
\<close>

theorem interface_ctor_dim_1_or_2:
  assumes "th > 0" and "preauto_th > th" and "new_MechanismManager d = Inr m"
  shows "(d = 1 \<or> d = 2 \<longrightarrow>
            (\<exists>i. MechanismManagerInterface_ctor new_MechanismManager
                    \<lparr>mechanism_manager_interface =
                       Some \<lparr>yaml_position_dim = Some d, yaml_phase_dot_th = Some th,
                             yaml_phase_dot_preauto_th = Some preauto_th\<rparr>\<rparr> = Inr i
                 \<and> position_dim i = d \<and> interface_mm i = m
                 \<and> length (interface_f i) = nat d
                 \<and> length (interface_robot_position i) = nat d
                 \<and> length (interface_robot_velocity i) = nat d))
       \<and> (d \<noteq> 1 \<and> d \<noteq> 2 \<longrightarrow>
            MechanismManagerInterface_ctor new_MechanismManager
              \<lparr>mechanism_manager_interface =
                 Some \<lparr>yaml_position_dim = Some d, yaml_phase_dot_th = Some th,
                       yaml_phase_dot_preauto_th = Some preauto_th\<rparr>\<rparr> = Inl AssertionFailed)
       \<and> MechanismManagerInterface_ctor new_MechanismManager
            \<lparr>mechanism_manager_interface = None\<rparr> = Inl RuntimeError"
  using assms by (simp add: MechanismManagerInterface_ctor_def ReadConfig_def)

theorem interface_ctor_dim_1_or_2_witness:
  "\<exists>i. MechanismManagerInterface_ctor (\<lambda>d. Inr d)
          \<lparr>mechanism_manager_interface =
             Some \<lparr>yaml_position_dim = Some 2, yaml_phase_dot_th = Some (1/2),
                   yaml_phase_dot_preauto_th = Some 2\<rparr>\<rparr> = Inr i
       \<and> position_dim i = 2 \<and> interface_mm i = 2 \<and> length (interface_f i) = 2"
  using interface_ctor_dim_1_or_2 [of "1/2" 2 "\<lambda>d. Inr d" 2 2] by auto

section \<open>Theorems: the loops of the mechanism manager\<close>

lemma score_step_fields:
  "vm_vector (score_step u p v dt i m) = (vm_vector m)[i := u (vm_vector m ! i) p v dt]"
  "scales (score_step u p v dt i m)
     = (scales m)[i := Fin (raw_score (prob_mode m) (u (vm_vector m ! i) p v dt) p)]"
  "phase (score_step u p v dt i m) = (phase m)[i := getPhase (u (vm_vector m ! i) p v dt)]"
  "prob_mode (score_step u p v dt i m) = prob_mode m"
  "vm_nb (score_step u p v dt i m) = vm_nb m"
  "dim (score_step u p v dt i m) = dim m"
  "active_guide (score_step u p v dt i m) = active_guide m"
  "use_active_guide (score_step u p v dt i m) = use_active_guide m"
  "scale_threshold (score_step u p v dt i m) = scale_threshold m"
  "vm_state (score_step u p v dt i m) = vm_state m"
  "vm_state_dot (score_step u p v dt i m) = vm_state_dot m"
  "sum_scales (score_step u p v dt i m) = sum_scales m"
  by (simp_all add: score_step_def Let_def raw_score_def split: prob_mode_t.splits)

lemma score_loop_fields:
  "prob_mode (fold (score_step u p v dt) [0..<n] m) = prob_mode m"
  "vm_nb (fold (score_step u p v dt) [0..<n] m) = vm_nb m"
  "dim (fold (score_step u p v dt) [0..<n] m) = dim m"
  "active_guide (fold (score_step u p v dt) [0..<n] m) = active_guide m"
  "use_active_guide (fold (score_step u p v dt) [0..<n] m) = use_active_guide m"
  "scale_threshold (fold (score_step u p v dt) [0..<n] m) = scale_threshold m"
  "vm_state (fold (score_step u p v dt) [0..<n] m) = vm_state m"
  "vm_state_dot (fold (score_step u p v dt) [0..<n] m) = vm_state_dot m"
  by (induction n; simp add: score_step_fields)+

lemma score_loop_vm_vector:
  "n \<le> length (vm_vector m) \<Longrightarrow>
   vm_vector (fold (score_step u p v dt) [0..<n] m)
     = map (\<lambda>vm. u vm p v dt) (take n (vm_vector m)) @ drop n (vm_vector m)"
proof (induction n)
  case 0
  show ?case by simp
next
  case (Suc n)
  then have n: "n < length (vm_vector m)" by simp
  have "(map (\<lambda>vm. u vm p v dt) (take n (vm_vector m)) @ drop n (vm_vector m)) ! n
        = vm_vector m ! n"
    using n by (simp add: nth_append)
  moreover have "(map (\<lambda>vm. u vm p v dt) (take n (vm_vector m)) @ drop n (vm_vector m))[n := x]
        = map (\<lambda>vm. u vm p v dt) (take n (vm_vector m)) @ x # drop (Suc n) (vm_vector m)" for x
    using n by (simp add: list_update_append Cons_nth_drop_Suc [symmetric])
  ultimately show ?case
    using Suc n by (simp add: score_step_fields take_Suc_conv_app_nth)
qed

lemma score_loop_scales:
  "n \<le> length (vm_vector m) \<Longrightarrow> length (scales m) = length (vm_vector m) \<Longrightarrow>
   scales (fold (score_step u p v dt) [0..<n] m)
     = map (\<lambda>vm. Fin (raw_score (prob_mode m) (u vm p v dt) p)) (take n (vm_vector m))
       @ drop n (scales m)"
proof (induction n)
  case 0
  show ?case by simp
next
  case (Suc n)
  then have n: "n < length (vm_vector m)" "n < length (scales m)" by simp_all
  let ?g = "\<lambda>vm. Fin (raw_score (prob_mode m) (u vm p v dt) p)"
  have "(map ?g (take n (vm_vector m)) @ drop n (scales m))[n := x]
        = map ?g (take n (vm_vector m)) @ x # drop (Suc n) (scales m)" for x
    using n by (simp add: list_update_append Cons_nth_drop_Suc [symmetric])
  moreover have "vm_vector (fold (score_step u p v dt) [0..<n] m) ! n = vm_vector m ! n"
    using n by (simp add: score_loop_vm_vector nth_append)
  ultimately show ?case
    using Suc n by (simp add: score_step_fields score_loop_fields take_Suc_conv_app_nth)
qed

lemma score_loop_phase_length:
  "length (phase (fold (score_step u p v dt) [0..<n] m)) = length (phase m)"
  by (induction n) (simp_all add: score_step_fields)

lemma blend_step_fields:
  "vm_vector (fst (blend_step p v i mf)) = vm_vector (fst mf)"
  "prob_mode (fst (blend_step p v i mf)) = prob_mode (fst mf)"
  "sum_scales (fst (blend_step p v i mf)) = sum_scales (fst mf)"
  "vm_nb (fst (blend_step p v i mf)) = vm_nb (fst mf)"
  "dim (fst (blend_step p v i mf)) = dim (fst mf)"
  "phase (fst (blend_step p v i mf)) = phase (fst mf)"
  "active_guide (fst (blend_step p v i mf)) = active_guide (fst mf)"
  "use_active_guide (fst (blend_step p v i mf)) = use_active_guide (fst mf)"
  "scale_threshold (fst (blend_step p v i mf)) = scale_threshold (fst mf)"
  "length (vm_state (fst (blend_step p v i mf))) = length (vm_state (fst mf))"
  "length (vm_state_dot (fst (blend_step p v i mf))) = length (vm_state_dot (fst mf))"
  "scales (fst (blend_step p v i mf))
     = (scales (fst mf))[i := weight (prob_mode (fst mf)) (sum_scales (fst mf))
                                 (vm_vector (fst mf) ! i) p (scales (fst mf) ! i)]"
  by (simp_all add: blend_step_def Let_def weight_def split: prob_mode_t.splits)

lemma blend_step_force:
  assumes "i < length (scales (fst mf))" "i < length (vm_state (fst mf))"
    "i < length (vm_state_dot (fst mf))"
  shows "snd (blend_step p v i mf)
     = fvadd (snd mf)
         (fsmul (weight (prob_mode (fst mf)) (sum_scales (fst mf)) (vm_vector (fst mf) ! i) p
                   (scales (fst mf) ! i))
                (vm_force (vm_vector (fst mf) ! i) p v))"
  using assms
  by (simp add: blend_step_def Let_def weight_def vm_force_def split: prob_mode_t.splits)

lemma blend_loop_fields:
  "vm_vector (fst (fold (blend_step p v) [0..<n] mf)) = vm_vector (fst mf)"
  "prob_mode (fst (fold (blend_step p v) [0..<n] mf)) = prob_mode (fst mf)"
  "sum_scales (fst (fold (blend_step p v) [0..<n] mf)) = sum_scales (fst mf)"
  "vm_nb (fst (fold (blend_step p v) [0..<n] mf)) = vm_nb (fst mf)"
  "dim (fst (fold (blend_step p v) [0..<n] mf)) = dim (fst mf)"
  "phase (fst (fold (blend_step p v) [0..<n] mf)) = phase (fst mf)"
  "active_guide (fst (fold (blend_step p v) [0..<n] mf)) = active_guide (fst mf)"
  "use_active_guide (fst (fold (blend_step p v) [0..<n] mf)) = use_active_guide (fst mf)"
  "scale_threshold (fst (fold (blend_step p v) [0..<n] mf)) = scale_threshold (fst mf)"
  "length (vm_state (fst (fold (blend_step p v) [0..<n] mf))) = length (vm_state (fst mf))"
  "length (vm_state_dot (fst (fold (blend_step p v) [0..<n] mf))) = length (vm_state_dot (fst mf))"
  by (induction n; simp add: blend_step_fields)+

lemma blend_loop_scales:
  "n \<le> length (scales (fst mf)) \<Longrightarrow>
   scales (fst (fold (blend_step p v) [0..<n] mf))
     = map (\<lambda>i. weight (prob_mode (fst mf)) (sum_scales (fst mf)) (vm_vector (fst mf) ! i) p
                    (scales (fst mf) ! i)) [0..<n]
       @ drop n (scales (fst mf))"
proof (induction n)
  case 0
  show ?case by simp
next
  case (Suc n)
  then have n: "n < length (scales (fst mf))" by simp
  let ?W = "\<lambda>i. weight (prob_mode (fst mf)) (sum_scales (fst mf)) (vm_vector (fst mf) ! i) p
                    (scales (fst mf) ! i)"
  have "(map ?W [0..<n] @ drop n (scales (fst mf)))[n := x]
        = map ?W [0..<n] @ x # drop (Suc n) (scales (fst mf))" for x
    using n by (simp add: list_update_append Cons_nth_drop_Suc [symmetric])
  moreover have "(map ?W [0..<n] @ drop n (scales (fst mf))) ! n = scales (fst mf) ! n"
    using n by (simp add: nth_append)
  ultimately show ?case
    using Suc n by (simp add: blend_step_fields blend_loop_fields)
qed

lemma blend_loop_length_scales:
  "length (scales (fst (fold (blend_step p v) [0..<n] mf))) = length (scales (fst mf))"
  by (induction n) (simp_all add: blend_step_fields)

lemma blend_loop_force:
  "n \<le> length (scales (fst mf)) \<Longrightarrow> n \<le> length (vm_state (fst mf)) \<Longrightarrow>
   n \<le> length (vm_state_dot (fst mf)) \<Longrightarrow>
   snd (fold (blend_step p v) [0..<n] mf)
     = fold (\<lambda>i acc. fvadd acc
               (fsmul (weight (prob_mode (fst mf)) (sum_scales (fst mf)) (vm_vector (fst mf) ! i) p
                         (scales (fst mf) ! i))
                      (vm_force (vm_vector (fst mf) ! i) p v)))
         [0..<n] (snd mf)"
proof (induction n)
  case 0
  show ?case by simp
next
  case (Suc n)
  then have n: "n < length (scales (fst mf))" "n < length (vm_state (fst mf))"
    "n < length (vm_state_dot (fst mf))" by simp_all
  have "scales (fst (fold (blend_step p v) [0..<n] mf)) ! n = scales (fst mf) ! n"
    using n by (simp add: blend_loop_scales nth_append)
  then show ?case
    using Suc n
    by (simp add: blend_step_force blend_loop_fields blend_loop_length_scales)
qed

lemma fold_nth_upt:
  "fold (\<lambda>i. g (xs ! i)) [0..<length xs] a = fold g xs a"
proof -
  have "fold g (map (\<lambda>i. xs ! i) [0..<length xs]) a = fold (\<lambda>i. g (xs ! i)) [0..<length xs] a"
    by (simp add: fold_map comp_def)
  then show ?thesis by (simp add: map_nth)
qed

lemma map_nth_upt2:
  "length xs = length ys \<Longrightarrow> map (\<lambda>i. g (xs ! i) (ys ! i)) [0..<length xs] = map2 g xs ys"
  by (rule nth_equalityI) simp_all

lemma fsum_Fin_aux: "foldl fadd (Fin a) (map Fin xs) = Fin (a + sum_list xs)"
  by (induction xs arbitrary: a) (simp_all add: add.assoc)

lemma fsum_Fin: "fsum (map Fin xs) = Fin (sum_list xs)"
  by (simp add: fsum_def fsum_Fin_aux)

lemma Update_result:
  fixes u :: "vm_t \<Rightarrow> real list \<Rightarrow> real list \<Rightarrow> real \<Rightarrow> vm_t"
    and m :: MechanismManager and p v :: "real list" and dt :: real and f_out :: "fp list"
  assumes wf: "wf_manager m"
    and sz: "length p = dim m" "length v = dim m" "dt > 0" "length f_out = dim m"
  defines "vms \<equiv> map (\<lambda>vm. u vm p v dt) (vm_vector m)"
  defines "sigma \<equiv> Fin (\<Sum>vm\<leftarrow>vms. raw_score (prob_mode m) vm p)"
  defines "w \<equiv> \<lambda>vm. weight (prob_mode m) sigma vm p (Fin (raw_score (prob_mode m) vm p))"
  shows "\<exists>m'. Update u m p v dt f_out
           = Inr (m', fold (\<lambda>vm acc. fvadd acc (fsmul (w vm) (vm_force vm p v))) vms
                        (replicate (dim m) (Fin 0)))
         \<and> scales m' = map w vms \<and> vm_vector m' = vms \<and> sum_scales m' = sigma
         \<and> vm_nb m' = vm_nb m \<and> dim m' = dim m \<and> prob_mode m' = prob_mode m
         \<and> scale_threshold m' = scale_threshold m \<and> active_guide m' = active_guide m
         \<and> use_active_guide m' = use_active_guide m \<and> wf_manager m'"
proof -
  let ?m1 = "m\<lparr>robot_position := p\<rparr>"
  let ?m2 = "fold (score_step u p v dt) [0..<vm_nb m] ?m1"
  let ?m3 = "?m2\<lparr>sum_scales := fsum (scales ?m2)\<rparr>"
  let ?f0 = "map (\<lambda>_. Fin 0) f_out"
  let ?R = "fold (blend_step p v) [0..<vm_nb m] (?m3, ?f0)"
  let ?raw = "\<lambda>vm. Fin (raw_score (prob_mode m) vm p)"
  have len: "length (vm_vector m) = vm_nb m" "length (scales m) = vm_nb m"
    "length (phase m) = vm_nb m" "length (active_guide m) = vm_nb m"
    "length (vm_state m) = vm_nb m" "length (vm_state_dot m) = vm_nb m"
    using wf by (simp_all add: wf_manager_def)
  have lenv: "length vms = vm_nb m" by (simp add: vms_def len)
  have vm2: "vm_vector ?m2 = vms"
    using score_loop_vm_vector [of "vm_nb m" ?m1 u p v dt] by (simp add: len vms_def)
  have sc2: "scales ?m2 = map ?raw vms"
    using score_loop_scales [of "vm_nb m" ?m1 u p v dt]
    by (simp add: len vms_def comp_def)
  have sum3: "fsum (scales ?m2) = sigma"
  proof -
    have "map ?raw vms = map Fin (map (\<lambda>vm. raw_score (prob_mode m) vm p) vms)"
      by (simp add: comp_def)
    then show ?thesis
      by (simp only: sc2 fsum_Fin sigma_def)
  qed
  have fields2: "prob_mode ?m2 = prob_mode m" "vm_nb ?m2 = vm_nb m" "dim ?m2 = dim m"
    "active_guide ?m2 = active_guide m" "use_active_guide ?m2 = use_active_guide m"
    "scale_threshold ?m2 = scale_threshold m" "vm_state ?m2 = vm_state m"
    "vm_state_dot ?m2 = vm_state_dot m" "length (phase ?m2) = vm_nb m"
    by (simp_all add: score_loop_fields score_loop_phase_length len)
  have m3: "vm_vector ?m3 = vms" "scales ?m3 = map ?raw vms" "sum_scales ?m3 = sigma"
    "prob_mode ?m3 = prob_mode m" "vm_nb ?m3 = vm_nb m" "dim ?m3 = dim m"
    "active_guide ?m3 = active_guide m" "use_active_guide ?m3 = use_active_guide m"
    "scale_threshold ?m3 = scale_threshold m" "length (vm_state ?m3) = vm_nb m"
    "length (vm_state_dot ?m3) = vm_nb m" "length (phase ?m3) = vm_nb m"
    using vm2 sc2 sum3 fields2 by (simp_all add: len)
  have upd: "Update u m p v dt f_out = Inr ?R"
    using sz by (simp add: Update_def Let_def score_loop_fields)
  have scR: "scales (fst ?R) = map w vms"
  proof -
    have "scales (fst ?R)
          = map (\<lambda>i. weight (prob_mode m) sigma (vms ! i) p (map ?raw vms ! i)) [0..<vm_nb m]"
      using blend_loop_scales [of "vm_nb m" "(?m3, ?f0)" p v]
      by (simp only: fst_conv m3 length_map lenv order_refl drop_all append_Nil2)
    also have "\<dots> = map w vms"
      by (rule nth_equalityI) (simp_all add: lenv w_def)
    finally show ?thesis .
  qed
  have fR: "snd ?R = fold (\<lambda>vm acc. fvadd acc (fsmul (w vm) (vm_force vm p v))) vms
                        (replicate (dim m) (Fin 0))"
  proof -
    have "snd ?R = fold (\<lambda>i acc. fvadd acc
               (fsmul (weight (prob_mode m) sigma (vms ! i) p (map ?raw vms ! i))
                      (vm_force (vms ! i) p v))) [0..<vm_nb m] ?f0"
      using blend_loop_force [of "vm_nb m" "(?m3, ?f0)" p v]
      by (simp only: fst_conv snd_conv m3 length_map lenv order_refl)
    also have "\<dots> = fold (\<lambda>i. (\<lambda>vm acc. fvadd acc (fsmul (w vm) (vm_force vm p v))) (vms ! i))
                        [0..<length vms] ?f0"
      by (rule fold_cong) (simp_all add: lenv w_def)
    also have "\<dots> = fold (\<lambda>vm acc. fvadd acc (fsmul (w vm) (vm_force vm p v))) vms ?f0"
      by (rule fold_nth_upt)
    also have "\<dots> = fold (\<lambda>vm acc. fvadd acc (fsmul (w vm) (vm_force vm p v))) vms
                        (replicate (dim m) (Fin 0))"
      using sz by (simp add: map_replicate_const)
    finally show ?thesis .
  qed
  have fieldsR: "vm_vector (fst ?R) = vms" "sum_scales (fst ?R) = sigma"
    "vm_nb (fst ?R) = vm_nb m" "dim (fst ?R) = dim m" "prob_mode (fst ?R) = prob_mode m"
    "scale_threshold (fst ?R) = scale_threshold m" "active_guide (fst ?R) = active_guide m"
    "use_active_guide (fst ?R) = use_active_guide m"
    "length (vm_state (fst ?R)) = vm_nb m" "length (vm_state_dot (fst ?R)) = vm_nb m"
    "length (phase (fst ?R)) = vm_nb m"
    by (simp_all only: blend_loop_fields fst_conv m3)
  have wfR: "wf_manager (fst ?R)"
    unfolding wf_manager_def by (simp only: fieldsR scR length_map lenv len)
  have "Update u m p v dt f_out = Inr (fst ?R, snd ?R)"
    using upd by simp
  with scR fR fieldsR wfR show ?thesis
    by (intro exI [of _ "fst ?R"]) (simp only: simp_thms)
qed

lemma fvadd_fsmul_Fin:
  "fvadd (map Fin g) (fsmul (Fin r) F) = map Fin (map2 (\<lambda>a b. a + r * b) g F)"
  by (induction g F rule: list_induct2') (simp_all add: fvadd_def fsmul_def)

lemma blend_Fin:
  "\<forall>vm\<in>set vms. length (F vm) = length g \<Longrightarrow>
   fold (\<lambda>vm acc. fvadd acc (fsmul (Fin (r vm)) (F vm))) vms (map Fin g)
     = map Fin (map (\<lambda>j. g ! j + (\<Sum>vm\<leftarrow>vms. r vm * F vm ! j)) [0..<length g])"
proof (induction vms arbitrary: g)
  case Nil
  then show ?case by (simp add: map_nth)
next
  case (Cons vm vms)
  let ?g = "map2 (\<lambda>a b. a + r vm * b) g (F vm)"
  have len: "length ?g = length g" using Cons.prems by simp
  have "fold (\<lambda>vm acc. fvadd acc (fsmul (Fin (r vm)) (F vm))) (vm # vms) (map Fin g)
        = fold (\<lambda>vm acc. fvadd acc (fsmul (Fin (r vm)) (F vm))) vms (map Fin ?g)"
    by (simp add: fvadd_fsmul_Fin)
  also have "\<dots> = map Fin (map (\<lambda>j. ?g ! j + (\<Sum>vm\<leftarrow>vms. r vm * F vm ! j)) [0..<length ?g])"
    using Cons.prems by (intro Cons.IH) (simp add: len)
  also have "map (\<lambda>j. ?g ! j + (\<Sum>vm\<leftarrow>vms. r vm * F vm ! j)) [0..<length ?g]
        = map (\<lambda>j. g ! j + (\<Sum>vm\<leftarrow>vm # vms. r vm * F vm ! j)) [0..<length g]"
    using Cons.prems by (intro nth_equalityI) (simp_all add: len)
  finally show ?case .
qed

lemma vm_force_nth:
  "length (getState vm) = length p \<Longrightarrow> length (getStateDot vm) = length p \<Longrightarrow>
   length v = length p \<Longrightarrow> j < length p \<Longrightarrow>
   vm_force vm p v ! j
     = getK vm * (getState vm ! j - p ! j) + getB vm * (getStateDot vm ! j - v ! j)"
  by (simp add: vm_force_def vadd_def smul_def vsub_def)

lemma vm_force_length:
  "length (getState vm) = length p \<Longrightarrow> length (getStateDot vm) = length p \<Longrightarrow>
   length v = length p \<Longrightarrow> length (vm_force vm p v) = length p"
  by (simp add: vm_force_def vadd_def smul_def vsub_def)

lemma sum_list_divide_const:
  fixes g :: "'a \<Rightarrow> real"
  shows "(\<Sum>x\<leftarrow>xs. g x / c) = (\<Sum>x\<leftarrow>xs. g x) / c"
  by (induction xs) (simp_all add: add_divide_distrib)

lemma sum_list_pos_member:
  fixes g :: "'a \<Rightarrow> real"
  assumes "\<forall>x\<in>set xs. 0 \<le> g x" and "y \<in> set xs" and "0 < g y"
  shows "0 < (\<Sum>x\<leftarrow>xs. g x)"
  using assms
proof (induction xs)
  case Nil
  then show ?case by simp
next
  case (Cons x xs)
  have nn: "0 \<le> (\<Sum>x\<leftarrow>xs. g x)"
    using Cons.prems(1) by (intro sum_list_nonneg) auto
  show ?case
  proof (cases "y = x")
    case True
    with Cons.prems nn show ?thesis by simp
  next
    case False
    with Cons have "0 < (\<Sum>x\<leftarrow>xs. g x)" by simp
    moreover have "0 \<le> g x" using Cons.prems(1) by simp
    ultimately show ?thesis by simp
  qed
qed

lemmas tick_defs = Update_def Let_def score_step_def blend_step_def fsum_def fvadd_def fsmul_def
  vadd_def smul_def vsub_def test_manager_def test_vm_def vmUpdate_keep_def inf_signed_def

lemma ctor_test:
  "MechanismManager_ctor (\<lambda>vm. vm) (Some (test_config ''hard'' [test_vm (2/10) 0 [1,0,0], test_vm (8/10) 0 [0,1,0]]))
   = Inr (test_manager HARD [test_vm (2/10) 0 [1,0,0], test_vm (8/10) 0 [0,1,0]])"
  by (simp add: MechanismManager_ctor_def test_config_def test_manager_def Let_def init_step_def
      read_prob_mode_def test_vm_def upt_rec numeral_2_eq_2 numeral_3_eq_3)

lemma active_guide_step_fields:
  "vm_vector (active_guide_step fa i m)
     = (vm_vector m)[i := (vm_vector m ! i)\<lparr>active := guide_on fa m i\<rparr>]"
  "active_guide (active_guide_step fa i m) = (active_guide m)[i := guide_on fa m i]"
  "scales (active_guide_step fa i m) = scales m"
  "use_active_guide (active_guide_step fa i m) = use_active_guide m"
  "scale_threshold (active_guide_step fa i m) = scale_threshold m"
  "vm_nb (active_guide_step fa i m) = vm_nb m"
  "dim (active_guide_step fa i m) = dim m"
  "phase (active_guide_step fa i m) = phase m"
  "vm_state (active_guide_step fa i m) = vm_state m"
  "vm_state_dot (active_guide_step fa i m) = vm_state_dot m"
  by (auto simp add: active_guide_step_def guide_on_def)

lemma active_guide_loop_fields:
  "scales (fold (active_guide_step fa) [0..<n] m) = scales m"
  "use_active_guide (fold (active_guide_step fa) [0..<n] m) = use_active_guide m"
  "scale_threshold (fold (active_guide_step fa) [0..<n] m) = scale_threshold m"
  "vm_nb (fold (active_guide_step fa) [0..<n] m) = vm_nb m"
  "dim (fold (active_guide_step fa) [0..<n] m) = dim m"
  "phase (fold (active_guide_step fa) [0..<n] m) = phase m"
  "vm_state (fold (active_guide_step fa) [0..<n] m) = vm_state m"
  "vm_state_dot (fold (active_guide_step fa) [0..<n] m) = vm_state_dot m"
  "length (vm_vector (fold (active_guide_step fa) [0..<n] m)) = length (vm_vector m)"
  "length (active_guide (fold (active_guide_step fa) [0..<n] m)) = length (active_guide m)"
  by (induction n; simp add: active_guide_step_fields)+

lemma guide_on_loop:
  "guide_on fa (fold (active_guide_step fa) [0..<n] m) i = guide_on fa m i"
  by (simp add: guide_on_def active_guide_loop_fields)

lemma active_guide_loop_flags:
  "n \<le> length (active_guide m) \<Longrightarrow>
   active_guide (fold (active_guide_step fa) [0..<n] m)
     = map (guide_on fa m) [0..<n] @ drop n (active_guide m)"
proof (induction n)
  case 0
  show ?case by simp
next
  case (Suc n)
  then have n: "n < length (active_guide m)" by simp
  have "(map (guide_on fa m) [0..<n] @ drop n (active_guide m))[n := x]
        = map (guide_on fa m) [0..<n] @ x # drop (Suc n) (active_guide m)" for x
    using n by (simp add: list_update_append Cons_nth_drop_Suc [symmetric])
  then show ?case
    using Suc n by (simp add: active_guide_step_fields guide_on_loop)
qed

lemma active_guide_loop_vms:
  "n \<le> length (vm_vector m) \<Longrightarrow>
   vm_vector (fold (active_guide_step fa) [0..<n] m)
     = map (\<lambda>i. (vm_vector m ! i)\<lparr>active := guide_on fa m i\<rparr>) [0..<n] @ drop n (vm_vector m)"
proof (induction n)
  case 0
  show ?case by simp
next
  case (Suc n)
  then have n: "n < length (vm_vector m)" by simp
  let ?g = "\<lambda>i. (vm_vector m ! i)\<lparr>active := guide_on fa m i\<rparr>"
  have "(map ?g [0..<n] @ drop n (vm_vector m))[n := x]
        = map ?g [0..<n] @ x # drop (Suc n) (vm_vector m)" for x
    using n by (simp add: list_update_append Cons_nth_drop_Suc [symmetric])
  moreover have "(map ?g [0..<n] @ drop n (vm_vector m)) ! n = vm_vector m ! n"
    using n by (simp add: nth_append)
  ultimately show ?case
    using Suc n by (simp add: active_guide_step_fields guide_on_loop)
qed

lemma set_active_guides_wf: "wf_manager m \<Longrightarrow> wf_manager (set_active_guides fa m)"
  by (simp add: wf_manager_def set_active_guides_def active_guide_loop_fields)

lemma direction_step_fields:
  "scales (direction_step mf i m) = scales m"
  "use_active_guide (direction_step mf i m) = use_active_guide m"
  "active_guide (direction_step mf i m) = active_guide m"
  "scale_threshold (direction_step mf i m) = scale_threshold m"
  "vm_nb (direction_step mf i m) = vm_nb m"
  "dim (direction_step mf i m) = dim m"
  "phase (direction_step mf i m) = phase m"
  "vm_state (direction_step mf i m) = vm_state m"
  "vm_state_dot (direction_step mf i m) = vm_state_dot m"
  "length (vm_vector (direction_step mf i m)) = length (vm_vector m)"
  by (simp_all add: direction_step_def)

lemma direction_loop_fields:
  "scales (fold (direction_step mf) [0..<n] m) = scales m"
  "use_active_guide (fold (direction_step mf) [0..<n] m) = use_active_guide m"
  "active_guide (fold (direction_step mf) [0..<n] m) = active_guide m"
  "scale_threshold (fold (direction_step mf) [0..<n] m) = scale_threshold m"
  "vm_nb (fold (direction_step mf) [0..<n] m) = vm_nb m"
  "dim (fold (direction_step mf) [0..<n] m) = dim m"
  "phase (fold (direction_step mf) [0..<n] m) = phase m"
  "vm_state (fold (direction_step mf) [0..<n] m) = vm_state m"
  "vm_state_dot (fold (direction_step mf) [0..<n] m) = vm_state_dot m"
  "length (vm_vector (fold (direction_step mf) [0..<n] m)) = length (vm_vector m)"
  by (induction n; simp add: direction_step_fields)+

lemma init_step_fields:
  "vm_nb (init_step vmInit i m) = vm_nb m"
  "dim (init_step vmInit i m) = dim m"
  "use_active_guide (init_step vmInit i m) = use_active_guide m"
  "length (vm_vector (init_step vmInit i m)) = length (vm_vector m)"
  "length (vm_state (init_step vmInit i m)) = length (vm_state m) + 1"
  "length (vm_state_dot (init_step vmInit i m)) = length (vm_state_dot m) + 1"
  by (simp_all add: init_step_def)

lemma init_loop_fields:
  "vm_nb (fold (init_step vmInit) [0..<n] m) = vm_nb m"
  "dim (fold (init_step vmInit) [0..<n] m) = dim m"
  "use_active_guide (fold (init_step vmInit) [0..<n] m) = use_active_guide m"
  "length (vm_vector (fold (init_step vmInit) [0..<n] m)) = length (vm_vector m)"
  "length (vm_state (fold (init_step vmInit) [0..<n] m)) = length (vm_state m) + n"
  "length (vm_state_dot (fold (init_step vmInit) [0..<n] m)) = length (vm_state_dot m) + n"
  by (induction n; simp add: init_step_fields)+

lemma ctor_inv:
  assumes "MechanismManager_ctor vmInit config_file = Inr m"
  shows "manager_inv config_file m"
proof -
  from assms obtain cfg where cfg: "config_file = Some cfg"
    by (cases config_file) (simp_all add: MechanismManager_ctor_def)
  from assms cfg have n: "1 \<le> length (models cfg)"
    by (simp add: MechanismManager_ctor_def Let_def split: if_splits)
  show ?thesis
    using assms n unfolding cfg manager_inv_def wf_manager_def
    by (auto simp add: MechanismManager_ctor_def Let_def init_loop_fields split: if_splits)
qed

lemma Update_inv:
  assumes "manager_inv config_file m" and "Update u m p v dt f_out = Inr (m', f')"
  shows "manager_inv config_file m'"
proof -
  from assms(2) have sz: "length p = dim m" "length v = dim m" "dt > 0" "length f_out = dim m"
    by (simp_all add: Update_def split: if_splits)
  from assms(1) have wf: "wf_manager m" by (simp add: manager_inv_def)
  from Update_result [OF wf sz, of u] assms(2)
  have "wf_manager m'" "vm_nb m' = vm_nb m" "scale_threshold m' = scale_threshold m"
    "use_active_guide m' = use_active_guide m"
    by auto
  with assms(1) show ?thesis by (simp add: manager_inv_def)
qed

lemma set_active_guides_inv:
  "manager_inv config_file m \<Longrightarrow> manager_inv config_file (set_active_guides fa m)"
  by (simp add: manager_inv_def set_active_guides_wf)
     (simp add: set_active_guides_def active_guide_loop_fields)

lemma direction_loop_inv:
  "manager_inv config_file m \<Longrightarrow> manager_inv config_file (fold (direction_step mf) [0..<n] m)"
  by (simp add: manager_inv_def wf_manager_def direction_loop_fields)

lemma reachable_inv:
  "reachable vmInit vmUpdate config_file m \<Longrightarrow> manager_inv config_file m"
proof (induction rule: reachable.induct)
  case (constructed m)
  then show ?case by (rule ctor_inv)
next
  case (updated m robot_pos robot_vel dt f_out m' f')
  then show ?case by (blast intro: Update_inv)
next
  case (updated_force_applied m robot_pos robot_vel dt f_out force_applied m' f')
  then show ?case
    unfolding Update_force_applied_def
    by (blast intro: Update_inv set_active_guides_inv)
next
  case (updated_move_forward m robot_pos robot_vel dt f_out force_applied move_forward m' f')
  then show ?case
    unfolding Update_move_forward_def Update_force_applied_def
    by (blast intro: Update_inv set_active_guides_inv direction_loop_inv)
qed


lemma Hard_all_scores_zero:
  fixes vmUpdate :: "vm_t \<Rightarrow> real list \<Rightarrow> real list \<Rightarrow> real \<Rightarrow> vm_t"
  assumes "wf_manager m" and "prob_mode m = HARD"
    and "length pos = dim m" and "length vel = dim m" and "dt > 0" and "length f_out = dim m"
    and "\<forall>vm \<in> set (map (\<lambda>vm. vmUpdate vm pos vel dt) (vm_vector m)). getProbability vm pos = 0"
  shows "\<exists>m' f'. Update vmUpdate m pos vel dt f_out = Inr (m', f')
           \<and> sum_scales m' = Fin 0 \<and> scales m' = replicate (vm_nb m) NaN"
proof -
  let ?vms = "map (\<lambda>vm. vmUpdate vm pos vel dt) (vm_vector m)"
  have zero: "getProbability vm pos = 0" if "vm \<in> set ?vms" for vm
    using assms(7) that by blast
  have len: "length ?vms = vm_nb m"
    using assms(1) by (simp add: wf_manager_def)
  have "map (\<lambda>vm. raw_score HARD vm pos) ?vms = map (\<lambda>vm. 0) ?vms"
    using zero by (intro map_cong refl) (simp add: raw_score_def)
  then have sigma: "(\<Sum>vm\<leftarrow>?vms. raw_score HARD vm pos) = 0"
    by (simp only: sum_list_0)
  have w: "map (\<lambda>vm. weight HARD (Fin 0) vm pos (Fin (raw_score HARD vm pos))) ?vms
           = replicate (vm_nb m) NaN"
    using zero len
    by (intro nth_equalityI) (auto simp add: weight_def raw_score_def inf_signed_def)
  from Update_result [OF assms(1) assms(3-6), of vmUpdate]
  show ?thesis
    unfolding assms(2) sigma w by blast
qed

section \<open>Theorems: scales and force of a tick\<close>

text \<open>
  Claim C1 as stated fails in Soft mode. One mechanism with probability 1 at
  distance 1: its raw score is positive, and after the normalisation pass its scale
  is \<open>exp (-10) * 1 / 1\<close>, so the scales sum to \<open>exp (-10)\<close>, not to 1.
\<close>

theorem Soft_scales_do_not_sum_to_one:
  "(case Update vmUpdate_keep (test_manager SOFT [test_vm 1 1 [1, 0, 0]])
           [0, 0, 0] [0, 0, 0] (1/100) [Fin 0, Fin 0, Fin 0] of
      Inl e \<Rightarrow> None
    | Inr (m', f') \<Rightarrow> Some (scales m', fsum (scales m')))
   = Some ([Fin (exp (- 10))], Fin (exp (- 10)))
   \<and> Fin (exp (- 10)) \<noteq> Fin 1"
  by (simp add: tick_defs)


text \<open>
  Claim C1, amended. For a tick in Hard or Soft mode in which every raw score is
  non-negative and at least one is positive, every scale after the normalisation
  pass is a non-negative number. In Hard mode the scales sum to 1. In Soft mode
  they sum to \<open>(\<Sum>i. exp (-10 * d i) * s i) / (\<Sum>i. s i)\<close>, which is at most 1 when no
  distance is negative.
\<close>

theorem Hard_Soft_scales:
  fixes vmUpdate :: "vm_t \<Rightarrow> real list \<Rightarrow> real list \<Rightarrow> real \<Rightarrow> vm_t"
  assumes "wf_manager m" and "prob_mode m = HARD \<or> prob_mode m = SOFT"
    and "length pos = dim m" and "length vel = dim m" and "dt > 0" and "length f_out = dim m"
    and "\<forall>vm \<in> set (map (\<lambda>vm. vmUpdate vm pos vel dt) (vm_vector m)). 0 \<le> getProbability vm pos"
    and "\<exists>vm \<in> set (map (\<lambda>vm. vmUpdate vm pos vel dt) (vm_vector m)). 0 < getProbability vm pos"
  shows "\<exists>m' f'. Update vmUpdate m pos vel dt f_out = Inr (m', f')
           \<and> (\<forall>s \<in> set (scales m'). \<exists>r. s = Fin r \<and> 0 \<le> r)
           \<and> (prob_mode m = HARD \<longrightarrow> fsum (scales m') = Fin 1)
           \<and> (prob_mode m = SOFT \<longrightarrow>
                fsum (scales m')
                  = Fin ((\<Sum>vm\<leftarrow>map (\<lambda>vm. vmUpdate vm pos vel dt) (vm_vector m).
                            exp (- 10 * getDistance vm pos) * getProbability vm pos)
                         / (\<Sum>vm\<leftarrow>map (\<lambda>vm. vmUpdate vm pos vel dt) (vm_vector m).
                            getProbability vm pos))
                \<and> ((\<forall>vm \<in> set (map (\<lambda>vm. vmUpdate vm pos vel dt) (vm_vector m)).
                       0 \<le> getDistance vm pos)
                    \<longrightarrow> (\<Sum>vm\<leftarrow>map (\<lambda>vm. vmUpdate vm pos vel dt) (vm_vector m).
                            exp (- 10 * getDistance vm pos) * getProbability vm pos)
                         / (\<Sum>vm\<leftarrow>map (\<lambda>vm. vmUpdate vm pos vel dt) (vm_vector m).
                            getProbability vm pos) \<le> 1))"
proof -
  let ?vms = "map (\<lambda>vm. vmUpdate vm pos vel dt) (vm_vector m)"
  let ?pr = "\<lambda>vm. getProbability vm pos"
  let ?e = "\<lambda>vm. exp (- 10 * getDistance vm pos)"
  let ?S = "\<Sum>vm\<leftarrow>?vms. ?pr vm"
  have nonneg: "0 \<le> ?pr vm" if "vm \<in> set ?vms" for vm
    using assms(7) that by blast
  from assms(8) obtain vm0 where vm0: "vm0 \<in> set ?vms" "0 < ?pr vm0" by blast
  have S: "0 < ?S"
    using assms(7) vm0 by (rule sum_list_pos_member)
  have raw: "raw_score (prob_mode m) vm pos = ?pr vm" for vm
    using assms(2) by (auto simp add: raw_score_def)
  let ?w = "\<lambda>vm. weight (prob_mode m) (Fin ?S) vm pos (Fin (?pr vm))"
  let ?r = "\<lambda>vm. if prob_mode m = HARD then ?pr vm / ?S else ?e vm * ?pr vm / ?S"
  have w: "?w vm = Fin (?r vm)" for vm
    using assms(2) S by (auto simp add: weight_def)
  from Update_result [OF assms(1) assms(3-6), of vmUpdate]
  obtain m' f' where up: "Update vmUpdate m pos vel dt f_out = Inr (m', f')"
    and sc0: "scales m' = map ?w ?vms"
    unfolding raw by blast
  have sc: "scales m' = map Fin (map ?r ?vms)"
    unfolding sc0 w by (simp only: map_map comp_def)
  have "\<exists>r. s = Fin r \<and> 0 \<le> r" if "s \<in> set (scales m')" for s
  proof -
    from that obtain vm where vm: "vm \<in> set ?vms" "s = Fin (?r vm)"
      unfolding sc by auto
    have "0 \<le> ?r vm"
      using nonneg [OF vm(1)] S by simp
    with vm show ?thesis by blast
  qed
  moreover have "fsum (scales m') = Fin 1" if "prob_mode m = HARD"
  proof -
    have "sum_list (map ?r ?vms) = (\<Sum>vm\<leftarrow>?vms. ?pr vm / ?S)"
      using that by simp
    also have "\<dots> = ?S / ?S" by (rule sum_list_divide_const)
    also have "\<dots> = 1" using S by simp
    finally show ?thesis by (simp only: sc fsum_Fin)
  qed
  moreover have "fsum (scales m') = Fin ((\<Sum>vm\<leftarrow>?vms. ?e vm * ?pr vm) / ?S)"
    if "prob_mode m = SOFT"
  proof -
    have "sum_list (map ?r ?vms) = (\<Sum>vm\<leftarrow>?vms. ?e vm * ?pr vm / ?S)"
      using that by simp
    also have "\<dots> = (\<Sum>vm\<leftarrow>?vms. ?e vm * ?pr vm) / ?S" by (rule sum_list_divide_const)
    finally show ?thesis by (simp only: sc fsum_Fin)
  qed
  moreover have "(\<Sum>vm\<leftarrow>?vms. ?e vm * ?pr vm) / ?S \<le> 1"
    if "\<forall>vm \<in> set ?vms. 0 \<le> getDistance vm pos"
  proof -
    have "(\<Sum>vm\<leftarrow>?vms. ?e vm * ?pr vm) \<le> ?S"
    proof (rule sum_list_mono)
      fix vm assume vm: "vm \<in> set ?vms"
      with that have "0 \<le> getDistance vm pos" by blast
      then have "?e vm \<le> 1" by simp
      with nonneg [OF vm] show "?e vm * ?pr vm \<le> ?pr vm"
        by (simp add: mult_left_le_one_le)
    qed
    with S show ?thesis by simp
  qed
  ultimately show ?thesis using up by blast
qed

theorem Hard_Soft_scales_witness:
  "\<exists>m' f'. Update vmUpdate_keep (test_manager HARD [test_vm (2/10) 0 [1,0,0], test_vm (8/10) 0 [0,1,0]])
              [0, 0, 0] [0, 0, 0] (1/100) [Fin 0, Fin 0, Fin 0] = Inr (m', f')
      \<and> (\<forall>s \<in> set (scales m'). \<exists>r. s = Fin r \<and> 0 \<le> r)
      \<and> fsum (scales m') = Fin 1"
  using Hard_Soft_scales [of "test_manager HARD [test_vm (2/10) 0 [1,0,0], test_vm (8/10) 0 [0,1,0]]"
      "[0, 0, 0]" "[0, 0, 0]" "1/100" "[Fin 0, Fin 0, Fin 0]" vmUpdate_keep]
  by (simp add: wf_manager_def test_manager_def test_vm_def vmUpdate_keep_def)


text \<open>
  Claim C2 (evaluation of the code where the claim fails). Hard mode, one mechanism
  with probability 0: the sum of the raw scores is 0, the second loop divides
  \<open>0 / 0\<close>, and the scale and all three components of the force are NaN, not 0.
  (By \<open>Hard_all_scores_zero\<close> every scale is NaN whenever all raw scores are 0.)
\<close>

theorem Hard_zero_sum_gives_NaN:
  "(case Update vmUpdate_keep (test_manager HARD [test_vm 0 1 [1, 0, 0]])
           [0, 0, 0] [0, 0, 0] (1/100) [Fin 0, Fin 0, Fin 0] of
      Inl e \<Rightarrow> None
    | Inr (m', f') \<Rightarrow> Some (sum_scales m', scales m', f'))
   = Some (Fin 0, [NaN], [NaN, NaN, NaN])"
  by (simp add: tick_defs)


text \<open>
  Claim C3. For a tick in Potential mode, the scale of each mechanism is
  \<open>exp (-10 * distance)\<close> of the mechanism after its update, not divided by their sum,
  and each component \<open>j\<close> of the force is the sum over the mechanisms of
  \<open>scale * (K * (c ! j - pos ! j) + B * (c_dot ! j - vel ! j))\<close>.
\<close>

theorem Potential_mode_force:
  fixes vmUpdate :: "vm_t \<Rightarrow> real list \<Rightarrow> real list \<Rightarrow> real \<Rightarrow> vm_t"
  assumes "wf_manager m" and "prob_mode m = POTENTIAL"
    and "length pos = dim m" and "length vel = dim m" and "dt > 0" and "length f_out = dim m"
    and "\<forall>vm \<in> set (map (\<lambda>vm. vmUpdate vm pos vel dt) (vm_vector m)).
           length (getState vm) = dim m \<and> length (getStateDot vm) = dim m"
  shows "\<exists>m' f'. Update vmUpdate m pos vel dt f_out = Inr (m', f')
           \<and> scales m' = map (\<lambda>vm. Fin (exp (- 10 * getDistance vm pos)))
                            (map (\<lambda>vm. vmUpdate vm pos vel dt) (vm_vector m))
           \<and> length f' = dim m
           \<and> (\<forall>j < dim m.
                f' ! j = Fin (\<Sum>vm\<leftarrow>map (\<lambda>vm. vmUpdate vm pos vel dt) (vm_vector m).
                               exp (- 10 * getDistance vm pos)
                               * (getK vm * (getState vm ! j - pos ! j)
                                  + getB vm * (getStateDot vm ! j - vel ! j))))"
proof -
  let ?vms = "map (\<lambda>vm. vmUpdate vm pos vel dt) (vm_vector m)"
  let ?r = "\<lambda>vm. exp (- 10 * getDistance vm pos)"
  let ?f = "fold (\<lambda>vm acc. fvadd acc (fsmul (Fin (?r vm)) (vm_force vm pos vel))) ?vms
              (replicate (dim m) (Fin 0))"
  let ?G = "\<lambda>j. (\<Sum>vm\<leftarrow>?vms. ?r vm * vm_force vm pos vel ! j)"
  have w: "weight POTENTIAL sigma vm pos (Fin (raw_score POTENTIAL vm pos)) = Fin (?r vm)"
    for sigma vm
    by (simp add: weight_def raw_score_def)
  from Update_result [OF assms(1) assms(3-6), of vmUpdate]
  obtain m' where up: "Update vmUpdate m pos vel dt f_out = Inr (m', ?f)"
    and sc: "scales m' = map (\<lambda>vm. Fin (?r vm)) ?vms"
    unfolding assms(2) w by blast
  have lens: "\<forall>vm\<in>set ?vms. length (vm_force vm pos vel) = length (replicate (dim m) (0::real))"
    using assms(3,4,7) by (simp add: vm_force_length)
  have "?f = fold (\<lambda>vm acc. fvadd acc (fsmul (Fin (?r vm)) (vm_force vm pos vel))) ?vms
              (map Fin (replicate (dim m) 0))"
    by simp
  also have "\<dots> = map Fin (map (\<lambda>j. replicate (dim m) 0 ! j + ?G j)
                        [0..<length (replicate (dim m) (0::real))])"
    using lens by (rule blend_Fin)
  also have "\<dots> = map Fin (map ?G [0..<dim m])"
    by simp
  finally have f: "?f = map Fin (map ?G [0..<dim m])" .
  have nth: "?f ! j = Fin (\<Sum>vm\<leftarrow>?vms. ?r vm * (getK vm * (getState vm ! j - pos ! j)
                                  + getB vm * (getStateDot vm ! j - vel ! j)))"
    if "j < dim m" for j
  proof -
    have "?G j = (\<Sum>vm\<leftarrow>?vms. ?r vm * (getK vm * (getState vm ! j - pos ! j)
                                  + getB vm * (getStateDot vm ! j - vel ! j)))"
    proof (intro arg_cong [where f = sum_list] map_cong refl)
      fix vm assume "vm \<in> set ?vms"
      with assms(7) have "length (getState vm) = length pos" "length (getStateDot vm) = length pos"
        using assms(3) by auto
      then show "?r vm * vm_force vm pos vel ! j
          = ?r vm * (getK vm * (getState vm ! j - pos ! j)
                                  + getB vm * (getStateDot vm ! j - vel ! j))"
        using assms(3,4) that by (simp add: vm_force_nth)
    qed
    moreover have "map Fin (map ?G [0..<dim m]) ! j = Fin (?G j)"
      using that by simp
    ultimately show ?thesis by (simp only: f)
  qed
  have "length ?f = dim m" by (simp only: f length_map length_upt diff_zero)
  with up sc nth show ?thesis by blast
qed

theorem Potential_mode_force_witness:
  "\<exists>m' f'. Update vmUpdate_keep (test_manager POTENTIAL [test_vm 1 0 [1, 0, 0]])
              [0, 0, 0] [0, 0, 0] (1/100) [Fin 0, Fin 0, Fin 0] = Inr (m', f')
      \<and> scales m' = [Fin 1] \<and> length f' = 3 \<and> f' ! 0 = Fin 1 \<and> f' ! 1 = Fin 0 \<and> f' ! 2 = Fin 0"
proof -
  obtain m' f' where up: "Update vmUpdate_keep (test_manager POTENTIAL [test_vm 1 0 [1, 0, 0]])
              [0, 0, 0] [0, 0, 0] (1/100) [Fin 0, Fin 0, Fin 0] = Inr (m', f')"
    and sc: "scales m' = [Fin 1]" and len: "length f' = 3"
    and nth: "\<forall>j<3. f' ! j = Fin ([1, 0, 0] ! j - [0, 0, 0] ! j)"
    using Potential_mode_force [of "test_manager POTENTIAL [test_vm 1 0 [1, 0, 0]]"
        "[0, 0, 0]" "[0, 0, 0]" "1/100" "[Fin 0, Fin 0, Fin 0]" vmUpdate_keep]
    by (auto simp add: wf_manager_def test_manager_def test_vm_def vmUpdate_keep_def)
  from nth have "f' ! 0 = Fin 1" "f' ! 1 = Fin 0" "f' ! 2 = Fin 0"
    by simp_all
  with up sc len show ?thesis by blast
qed

section \<open>Theorems: the active-guide gate\<close>

text \<open>
  Claim C7. In the overload with \<^verbatim>\<open>force_applied\<close>, on any manager that can arise,
  mechanism \<open>i\<close> is set active, and \<^verbatim>\<open>active_guide_[i]\<close> set, exactly when
  \<^verbatim>\<open>force_applied\<close> is false, the scale left at index \<open>i\<close> by the tick before exceeds
  the threshold and \<^verbatim>\<open>use_active_guide_[i]\<close> is true; the threshold is \<open>1/N + 0.2\<close> for
  the number \<open>N\<close> of mechanisms the constructor loaded. The flag is still so after
  the whole tick.
\<close>

theorem active_guide_gate:
  assumes "reachable vmInit vmUpdate config_file m"
    and "i < vm_nb m" and "i < length (use_active_guide m)"
  shows "\<exists>cfg. config_file = Some cfg
           \<and> vm_nb m = length (models cfg)
           \<and> scale_threshold m = 1 / real (length (models cfg)) + 2 / 10
           \<and> active_guide (set_active_guides force_applied m) ! i
               = (\<not> force_applied
                  \<and> fgt (scales m ! i) (Fin (1 / real (length (models cfg)) + 2 / 10))
                  \<and> use_active_guide m ! i)
           \<and> active (vm_vector (set_active_guides force_applied m) ! i)
               = (\<not> force_applied
                  \<and> fgt (scales m ! i) (Fin (1 / real (length (models cfg)) + 2 / 10))
                  \<and> use_active_guide m ! i)
           \<and> Update_force_applied vmUpdate m robot_pos robot_vel dt f_out force_applied
               = Update vmUpdate (set_active_guides force_applied m) robot_pos robot_vel dt f_out
           \<and> (\<forall>m' f'. Update_force_applied vmUpdate m robot_pos robot_vel dt f_out force_applied
                         = Inr (m', f')
                 \<longrightarrow> active_guide m' ! i
                       = (\<not> force_applied
                          \<and> fgt (scales m ! i) (Fin (1 / real (length (models cfg)) + 2 / 10))
                          \<and> use_active_guide m ! i))"
proof -
  from reachable_inv [OF assms(1)] obtain cfg where cfg: "config_file = Some cfg"
    and nb: "vm_nb m = length (models cfg)"
    and th: "scale_threshold m = 1 / real (length (models cfg)) + 2 / 10"
    and wf: "wf_manager m"
    by (auto simp add: manager_inv_def)
  let ?on = "\<not> force_applied
                  \<and> fgt (scales m ! i) (Fin (1 / real (length (models cfg)) + 2 / 10))
                  \<and> use_active_guide m ! i"
  let ?g = "set_active_guides force_applied m"
  have on: "guide_on force_applied m i = ?on"
    by (simp add: guide_on_def th)
  have len: "length (active_guide m) = vm_nb m" "length (vm_vector m) = vm_nb m"
    using wf by (simp_all add: wf_manager_def)
  have flag: "active_guide ?g ! i = ?on"
    using active_guide_loop_flags [of "vm_nb m" m force_applied] assms(2)
    by (simp add: set_active_guides_def len on)
  have act: "active (vm_vector ?g ! i) = ?on"
    using active_guide_loop_vms [of "vm_nb m" m force_applied] assms(2)
    by (simp add: set_active_guides_def len on)
  have tick: "active_guide m' ! i = ?on"
    if "Update_force_applied vmUpdate m robot_pos robot_vel dt f_out force_applied = Inr (m', f')"
    for m' f'
  proof -
    from that have up: "Update vmUpdate ?g robot_pos robot_vel dt f_out = Inr (m', f')"
      by (simp add: Update_force_applied_def)
    then have sz: "length robot_pos = dim ?g" "length robot_vel = dim ?g" "dt > 0"
      "length f_out = dim ?g"
      by (simp_all add: Update_def split: if_splits)
    from Update_result [OF set_active_guides_wf [OF wf] sz, of vmUpdate] up
    have "active_guide m' = active_guide ?g" by auto
    with flag show ?thesis by simp
  qed
  show ?thesis
    using cfg nb th flag act tick by (simp add: Update_force_applied_def)
qed

theorem active_guide_gate_witness:
  "\<exists>m1 f1. Update vmUpdate_keep
              (test_manager HARD [test_vm (2/10) 0 [1,0,0], test_vm (8/10) 0 [0,1,0]])
              [0, 0, 0] [0, 0, 0] (1/100) [Fin 0, Fin 0, Fin 0] = Inr (m1, f1)
      \<and> scales m1 = [Fin (1/5), Fin (4/5)]
      \<and> scale_threshold m1 = 7/10
      \<and> active_guide (set_active_guides False m1) ! 0 = False
      \<and> active_guide (set_active_guides False m1) ! 1 = True
      \<and> active_guide (set_active_guides True m1) ! 1 = False"
proof -
  let ?vms = "[test_vm (2/10) 0 [1,0,0], test_vm (8/10) 0 [0,1,0]]"
  let ?cfg = "test_config ''hard'' ?vms"
  let ?m0 = "test_manager HARD ?vms"
  have ctor: "MechanismManager_ctor (\<lambda>vm. vm) (Some ?cfg) = Inr ?m0"
    by (rule ctor_test)
  have wf: "wf_manager ?m0" by (simp add: wf_manager_def test_manager_def)
  obtain m1 f1 where up: "Update vmUpdate_keep ?m0 [0, 0, 0] [0, 0, 0] (1/100)
      [Fin 0, Fin 0, Fin 0] = Inr (m1, f1)"
    and sc: "scales m1 = [Fin (1/5), Fin (4/5)]" and nb: "vm_nb m1 = 2"
    and use: "use_active_guide m1 = [True, True]"
    using Update_result [OF wf, of "[0, 0, 0]" "[0, 0, 0]" "1/100" "[Fin 0, Fin 0, Fin 0]" vmUpdate_keep]
    by (auto simp add: test_manager_def test_vm_def vmUpdate_keep_def weight_def raw_score_def)
  have r: "reachable (\<lambda>vm. vm) vmUpdate_keep (Some ?cfg) m1"
    by (rule reachable.updated [OF reachable.constructed [OF ctor] up])
  have "scale_threshold m1 = 7/10"
    and "active_guide (set_active_guides False m1) ! 0 = False"
    and "active_guide (set_active_guides False m1) ! 1 = True"
    and "active_guide (set_active_guides True m1) ! 1 = False"
    using active_guide_gate [OF r, of 0 False] active_guide_gate [OF r, of 1 False]
      active_guide_gate [OF r, of 1 True]
    by (simp_all add: nb use sc test_config_def)
  with up sc show ?thesis by blast
qed


end
